theory Spec2Isabelle
  imports Complex_Main "HOL-Library.Sublist" "HOL-Library.Monad_Syntax"
begin

section \<open>Python text\<close>

text \<open>
  A Python \<open>str\<close> is a sequence of Unicode code points: \<open>len\<close> counts code points and
  \<open>s[0]\<close> is one code point, so the euro sign is a single character. Text is therefore a
  list of code points, not of bytes. Literals of the source, which are ASCII apart from
  the currency symbols, are written with \<open>ascii\<close>.
\<close>

type_synonym pychar = nat
type_synonym pystr = "pychar list"

definition ascii :: "string \<Rightarrow> pystr" where
  "ascii s = map of_char s"

definition comma :: pychar where "comma = 44"
definition period :: pychar where "period = 46"
definition slash :: pychar where "slash = 47"
definition question_mark :: pychar where "question_mark = 63"
definition colon :: pychar where "colon = 58"
definition dollar :: pychar where "dollar = 36"
definition pound :: pychar where "pound = 163"
definition yen :: pychar where "yen = 165"
definition euro :: pychar where "euro = 8364"

text \<open>
  \<open>str.strip()\<close> and \<open>str.split()\<close> without arguments work on the characters for which
  \<open>str.isspace\<close> holds; CPython's table of them is short and is written out here.
\<close>

definition isspace :: "pychar \<Rightarrow> bool" where
  "isspace c \<longleftrightarrow>
     (9 \<le> c \<and> c \<le> 13) \<or> (28 \<le> c \<and> c \<le> 32) \<or> c = 133 \<or> c = 160 \<or> c = 5760 \<or>
     (8192 \<le> c \<and> c \<le> 8202) \<or> c = 8232 \<or> c = 8233 \<or> c = 8239 \<or> c = 8287 \<or> c = 12288"

definition py_strip :: "pystr \<Rightarrow> pystr" where
  "py_strip s = rev (dropWhile isspace (rev (dropWhile isspace s)))"

text \<open>\<open>s.split()\<close>: the maximal runs of non-whitespace characters, in order.\<close>

fun split_acc :: "pystr \<Rightarrow> pystr \<Rightarrow> pystr list" where
  "split_acc tok [] = (if tok = [] then [] else [rev tok])"
| "split_acc tok (c # cs) =
     (if isspace c then (if tok = [] then split_acc [] cs else rev tok # split_acc [] cs)
      else split_acc (c # tok) cs)"

definition py_split :: "pystr \<Rightarrow> pystr list" where
  "py_split s = split_acc [] s"

text \<open>\<open>s.replace(old, new)\<close> for a one-character \<open>old\<close>, the only use the source makes.\<close>

definition py_replace :: "pychar \<Rightarrow> pystr \<Rightarrow> pystr \<Rightarrow> pystr" where
  "py_replace old new s = concat (map (\<lambda>c. if c = old then new else [c]) s)"

text \<open>\<open>needle in hay\<close> on strings: \<open>needle\<close> occurs as a contiguous run.\<close>

fun py_in :: "pystr \<Rightarrow> pystr \<Rightarrow> bool" where
  "py_in needle [] = (needle = [])"
| "py_in needle (c # cs) = (prefix needle (c # cs) \<or> py_in needle cs)"

text \<open>\<open>x or ''\<close> on an optional string.\<close>

definition or_empty :: "pystr option \<Rightarrow> pystr" where
  "or_empty x = (case x of None \<Rightarrow> [] | Some s \<Rightarrow> s)"

section \<open>The Python runtime\<close>

text \<open>
  The built-ins whose results depend on the Unicode character database or on binary
  floating point are not code of this repository. They are parameters of the model: every
  theorem below holds for whatever these functions are. The type \<open>'f\<close> is the type of
  floats. \<open>quote_plus\<close> encodes its argument as UTF-8 and raises
  \<open>UnicodeEncodeError\<close> on a text that cannot be encoded, such as one with a lone
  surrogate: the result \<open>None\<close>.
\<close>

datatype exn = TypeError | ValueError | OverflowError | AttributeError

record 'f runtime =
  rt_isdigit :: "pychar \<Rightarrow> bool"
  rt_lower :: "pystr \<Rightarrow> pystr"
  rt_upper :: "pystr \<Rightarrow> pystr"
  rt_int_of_str :: "pystr \<Rightarrow> int option"
  rt_float_of_str :: "pystr \<Rightarrow> 'f option"
  rt_float_of_int :: "int \<Rightarrow> 'f option"
  rt_int_of_float :: "'f \<Rightarrow> exn + int"
  rt_float_is_zero :: "'f \<Rightarrow> bool"
  rt_float_less :: "'f \<Rightarrow> 'f \<Rightarrow> bool"
  rt_quote_plus :: "pystr \<Rightarrow> pystr option"

section \<open>Result cards\<close>

text \<open>
  A card is a Playwright \<open>Locator\<close>. The extractor reads it only through two attributes of
  the card element and through a fixed set of CSS selectors, so a card is modelled by what
  those reads answer. A read that raises is \<open>None\<close> at the outer \<open>option\<close>; for a
  selector it stands for a failure of any query made through that locator. A card whose
  extraction does not finish within the deadline of \<open>_extract_product_cards\<close> has
  \<open>expires\<close> set.
\<close>

datatype selector =
    Sel_title            \<comment> \<open>a.a-link-normal.s-link-style.a-text-normal\<close>
  | Sel_title_fallback   \<comment> \<open>h2 a.a-link-normal\<close>
  | Sel_price            \<comment> \<open>span.a-price > span.a-offscreen\<close>
  | Sel_original_price   \<comment> \<open>span.a-price.a-text-price span.a-offscreen\<close>
  | Sel_rating           \<comment> \<open>span.a-icon-alt\<close>
  | Sel_reviews          \<comment> \<open>span.a-size-base.s-underline-text\<close>
  | Sel_prime            \<comment> \<open>i.a-icon.a-icon-prime, span[data-component-type="s-prime"]\<close>
  | Sel_brand            \<comment> \<open>h5.s-line-clamp-1 span, span.a-size-base-plus.a-color-base\<close>
  | Sel_badge            \<comment> \<open>span.a-badge-text, span.s-label-popover-default, ...\<close>
  | Sel_sponsored        \<comment> \<open>span.s-sponsored-label-text, span.a-color-secondary\<close>
  | Sel_image            \<comment> \<open>img.s-image\<close>

record elem =
  text_content :: "pystr option"
  href :: "pystr option"
  src :: "pystr option"

record card =
  data_asin :: "pystr option option"
  data_brand :: "pystr option option"
  locator :: "selector \<Rightarrow> elem list option"
  expires :: bool

text \<open>The item built by \<open>_parse_single_card\<close>; the two last keys are absent (\<open>None\<close>)
  until the detail enrichment adds them.\<close>

record 'f product =
  asin :: pystr
  title :: pystr
  productUrl :: pystr
  priceText :: pystr
  price :: "'f option"
  originalPriceText :: pystr
  rating :: "'f option"
  reviewsCount :: "int option"
  isPrime :: bool
  brand :: pystr
  badges :: "pystr list"
  isSponsored :: bool
  imageUrl :: pystr
  currency :: pystr
  categoryPath :: "pystr list option"
  featureBullets :: "pystr list option"

subsection \<open>Field rules of \<open>_parse_single_card\<close>\<close>

text \<open>\<open>(await loc.first.text_content() or '').strip()\<close> when \<open>loc.count() > 0\<close>, else \<open>''\<close>.\<close>

definition first_text :: "elem list \<Rightarrow> pystr" where
  "first_text els = (case els of [] \<Rightarrow> [] | e # _ \<Rightarrow> py_strip (or_empty (text_content e)))"

definition starts_with_slash :: "pystr \<Rightarrow> bool" where
  "starts_with_slash s = (case s of [] \<Rightarrow> False | c # _ \<Rightarrow> c = slash)"

text \<open>\<open>href.split('?')[0]\<close>\<close>

definition before_query :: "pystr \<Rightarrow> pystr" where
  "before_query s = takeWhile (\<lambda>c. c \<noteq> question_mark) s"

definition product_url_of :: "pystr \<Rightarrow> pystr \<Rightarrow> pystr" where
  "product_url_of base_url h =
     (if starts_with_slash h then base_url @ before_query h else before_query h)"

text \<open>Lines 150-165, for a non-empty \<open>whole\<close>. A \<open>ValueError\<close> of \<open>float\<close> leaves the
  price \<open>None\<close>.\<close>

definition parse_price :: "'f runtime \<Rightarrow> pystr \<Rightarrow> 'f option" where
  "parse_price rt whole =
     (let numeric_part = filter (\<lambda>ch. rt_isdigit rt ch \<or> ch = comma \<or> ch = period) whole in
      if numeric_part = [] then None
      else
        let normalized =
          (if comma \<in> set numeric_part \<and> period \<notin> set numeric_part
           then py_replace comma [period] (py_replace period [] numeric_part)
           else py_replace comma [] numeric_part)
        in rt_float_of_str rt normalized)"

definition currency_symbols :: pystr where
  "currency_symbols = [dollar, euro, pound, yen]"

text \<open>Lines 170-178. \<open>stripped.split()[-1]\<close> raises \<open>IndexError\<close> on an empty token
  list; the raise is the result \<open>None\<close>.\<close>

definition parse_currency :: "pystr \<Rightarrow> pystr option" where
  "parse_currency price_text =
     (if price_text = [] then Some []
      else
        let stripped = py_strip price_text in
        if stripped \<noteq> [] \<and> hd stripped \<in> set currency_symbols then Some [hd stripped]
        else (case py_split stripped of
                [] \<Rightarrow> None
              | t # ts \<Rightarrow>
                  let last_token = last (t # ts) in
                  if length last_token = 3 \<or> length last_token = 4 then Some last_token
                  else Some []))"

text \<open>Lines 191-196: \<open>float(rating_text.split()[0].replace(',', '.'))\<close>, with
  \<open>ValueError\<close> and \<open>IndexError\<close> caught.\<close>

definition parse_rating :: "'f runtime \<Rightarrow> pystr \<Rightarrow> 'f option" where
  "parse_rating rt rating_text =
     (if rating_text = [] then None
      else (case py_split rating_text of
              [] \<Rightarrow> None
            | t # _ \<Rightarrow> rt_float_of_str rt (py_replace comma [period] t)))"

text \<open>Lines 202-207.\<close>

definition parse_reviews :: "'f runtime \<Rightarrow> pystr \<Rightarrow> int option" where
  "parse_reviews rt reviews_text =
     (if reviews_text = [] then None
      else rt_int_of_str rt (py_replace period [] (py_replace comma [] reviews_text)))"

definition badge_like_keywords :: "pystr list" where
  "badge_like_keywords =
     [ascii ''amazon's choice'', ascii ''overall pick'', ascii ''best seller'',
      ascii ''limited time deal'']"

text \<open>Lines 220-229.\<close>

definition clean_brand :: "'f runtime \<Rightarrow> pystr \<Rightarrow> pystr" where
  "clean_brand rt b =
     (if b \<noteq> [] \<and> list_ex (\<lambda>k. py_in k (rt_lower rt b)) badge_like_keywords then [] else b)"

text \<open>Lines 235-242: the loop over \<open>badge_locator.nth(i)\<close>, with the list built so far.\<close>

fun collect_badges :: "pystr list \<Rightarrow> elem list \<Rightarrow> pystr list" where
  "collect_badges acc [] = acc"
| "collect_badges acc (e # es) =
     (let cleaned = py_strip (or_empty (text_content e)) in
      if cleaned \<noteq> [] \<and> cleaned \<notin> set acc then collect_badges (acc @ [cleaned]) es
      else collect_badges acc es)"

text \<open>Lines 246-250.\<close>

definition sponsored_flag :: "'f runtime \<Rightarrow> elem list \<Rightarrow> bool" where
  "sponsored_flag rt els =
     (case els of
        [] \<Rightarrow> False
      | e # _ \<Rightarrow> py_in (ascii ''sponsored'') (rt_lower rt (py_strip (or_empty (text_content e)))))"

text \<open>Lines 253-258: true when one of the three filters returns \<open>None\<close>.\<close>

definition filtered_out ::
  "'f runtime \<Rightarrow> 'f option \<Rightarrow> int option \<Rightarrow> bool \<Rightarrow> 'f option \<Rightarrow> int option \<Rightarrow> bool \<Rightarrow> bool"
where
  "filtered_out rt min_rating min_reviews exclude_sponsored rating_value reviews_count is_sponsored =
     ((case (min_rating, rating_value) of
         (Some m, Some r) \<Rightarrow> rt_float_less rt r m
       | _ \<Rightarrow> False)
      \<or> (case (min_reviews, reviews_count) of
            (Some m, Some n) \<Rightarrow> n < m
          | _ \<Rightarrow> False)
      \<or> (exclude_sponsored \<and> is_sponsored))"

subsection \<open>\<open>_parse_single_card\<close>\<close>

text \<open>
  The body of the \<open>try\<close> block, in the order of the source. The outer \<open>option\<close> is the
  exception: \<open>None\<close> when a read raises. \<open>Some None\<close> is \<open>return None\<close> and
  \<open>Some (Some item)\<close> is the returned dictionary.
\<close>

definition card_fields ::
  "'f runtime \<Rightarrow> card \<Rightarrow> 'f option \<Rightarrow> int option \<Rightarrow> bool \<Rightarrow> pystr \<Rightarrow> pystr \<Rightarrow> pystr
     \<Rightarrow> 'f product option option"
where
  "card_fields rt cd min_rating min_reviews exclude_sponsored asin_v title_v product_url =
     do {
       price_els \<leftarrow> locator cd Sel_price;
       let whole = first_text price_els;
       let price_v = (if whole \<noteq> [] then parse_price rt whole else None);
       let price_text = whole;
       currency_v \<leftarrow> parse_currency price_text;
       original_els \<leftarrow> locator cd Sel_original_price;
       let original_price_text = first_text original_els;
       rating_els \<leftarrow> locator cd Sel_rating;
       let rating_value = parse_rating rt (first_text rating_els);
       reviews_els \<leftarrow> locator cd Sel_reviews;
       let reviews_count = parse_reviews rt (first_text reviews_els);
       prime_els \<leftarrow> locator cd Sel_prime;
       let is_prime = (prime_els \<noteq> []);
       brand_attr \<leftarrow> data_brand cd;
       let brand0 = py_strip (or_empty brand_attr);
       brand1 \<leftarrow> (if brand0 = []
                  then do { brand_els \<leftarrow> locator cd Sel_brand;
                            Some (if brand_els \<noteq> [] then first_text brand_els else brand0) }
                  else Some brand0);
       let brand_v = clean_brand rt brand1;
       badge_els \<leftarrow> locator cd Sel_badge;
       let badges_v = collect_badges [] badge_els;
       sponsored_els \<leftarrow> locator cd Sel_sponsored;
       let is_sponsored = sponsored_flag rt sponsored_els;
       if filtered_out rt min_rating min_reviews exclude_sponsored rating_value reviews_count
            is_sponsored
       then Some None
       else do {
         image_els \<leftarrow> locator cd Sel_image;
         let image_url = (case image_els of [] \<Rightarrow> [] | e # _ \<Rightarrow> or_empty (src e));
         Some (Some \<lparr>asin = asin_v, title = title_v, productUrl = product_url,
                     priceText = price_text, price = price_v,
                     originalPriceText = original_price_text, rating = rating_value,
                     reviewsCount = reviews_count, isPrime = is_prime, brand = brand_v,
                     badges = badges_v, isSponsored = is_sponsored, imageUrl = image_url,
                     currency = currency_v, categoryPath = None, featureBullets = None\<rparr>)
       }
     }"

text \<open>Lines 125-129: the title link, by the primary selector or else by the fallback.\<close>

definition title_links :: "card \<Rightarrow> elem list option" where
  "title_links cd =
     do {
       primary \<leftarrow> locator cd Sel_title;
       if primary = [] then locator cd Sel_title_fallback else Some primary
     }"

definition card_body ::
  "'f runtime \<Rightarrow> card \<Rightarrow> pystr \<Rightarrow> 'f option \<Rightarrow> int option \<Rightarrow> bool \<Rightarrow> 'f product option option"
where
  "card_body rt cd base_url min_rating min_reviews exclude_sponsored =
     do {
       asin_attr \<leftarrow> data_asin cd;
       if or_empty asin_attr = [] then Some None
       else do {
         title_el \<leftarrow> title_links cd;
         (case title_el of
            [] \<Rightarrow> Some None
          | link # _ \<Rightarrow>
              let title_v = py_strip (or_empty (text_content link)) in
              let h = or_empty (href link) in
              if h = [] then Some None
              else card_fields rt cd min_rating min_reviews exclude_sponsored
                     (or_empty asin_attr) title_v (product_url_of base_url h))
       }
     }"

text \<open>The \<open>except Exception\<close> of line 282 turns every raise into \<open>None\<close>.\<close>

definition parse_single_card ::
  "'f runtime \<Rightarrow> card \<Rightarrow> pystr \<Rightarrow> 'f option \<Rightarrow> int option \<Rightarrow> bool \<Rightarrow> 'f product option"
where
  "parse_single_card rt cd base_url min_rating min_reviews exclude_sponsored =
     (case card_body rt cd base_url min_rating min_reviews exclude_sponsored of
        None \<Rightarrow> None
      | Some r \<Rightarrow> r)"

text \<open>\<open>_extract_product_cards\<close>: a card that runs into the deadline of \<open>asyncio.wait_for\<close> is
  skipped, and so is a card for which \<open>_parse_single_card\<close> returns \<open>None\<close>.\<close>

fun extract_product_cards ::
  "'f runtime \<Rightarrow> card list \<Rightarrow> pystr \<Rightarrow> 'f option \<Rightarrow> int option \<Rightarrow> bool \<Rightarrow> 'f product list"
where
  "extract_product_cards rt [] base_url min_rating min_reviews exclude_sponsored = []"
| "extract_product_cards rt (cd # cards) base_url min_rating min_reviews exclude_sponsored =
     (if expires cd
      then extract_product_cards rt cards base_url min_rating min_reviews exclude_sponsored
      else (case parse_single_card rt cd base_url min_rating min_reviews exclude_sponsored of
              None \<Rightarrow> extract_product_cards rt cards base_url min_rating min_reviews exclude_sponsored
            | Some item \<Rightarrow>
                item # extract_product_cards rt cards base_url min_rating min_reviews
                         exclude_sponsored))"

section \<open>A runtime for the examples\<close>

text \<open>
  The examples are evaluated with this instance of the runtime. It agrees with CPython on
  ASCII text: ASCII digits and letters, and plain decimal numerals (an optional sign,
  digits, at most one period), which it reads exactly, as rationals. It is used for closed
  examples only; no general theorem depends on it.
\<close>

definition digit_val :: "pychar \<Rightarrow> nat option" where
  "digit_val c = (if 48 \<le> c \<and> c \<le> 57 then Some (c - 48) else None)"

fun read_digits :: "nat \<Rightarrow> pystr \<Rightarrow> nat option" where
  "read_digits acc [] = Some acc"
| "read_digits acc (c # cs) =
     (case digit_val c of None \<Rightarrow> None | Some d \<Rightarrow> read_digits (10 * acc + d) cs)"

definition read_nat :: "pystr \<Rightarrow> nat option" where
  "read_nat s = (if s = [] then None else read_digits 0 s)"

definition read_int :: "pystr \<Rightarrow> int option" where
  "read_int s0 =
     (let s = py_strip s0 in
      case s of
        [] \<Rightarrow> None
      | c # cs \<Rightarrow>
          if c = 45 then map_option (\<lambda>n. - int n) (read_nat cs)
          else if c = 43 then map_option int (read_nat cs)
          else map_option int (read_nat s))"

definition read_decimal :: "pystr \<Rightarrow> rat option" where
  "read_decimal s =
     (let ip = takeWhile (\<lambda>c. c \<noteq> period) s;
          fp = drop 1 (dropWhile (\<lambda>c. c \<noteq> period) s)
      in if ip = [] \<and> fp = [] then None
         else (case (read_digits 0 ip, read_digits 0 fp) of
                 (Some a, Some b) \<Rightarrow> Some (of_nat a + of_nat b / 10 ^ length fp)
               | _ \<Rightarrow> None))"

definition read_float :: "pystr \<Rightarrow> rat option" where
  "read_float s0 =
     (let s = py_strip s0 in
      case s of
        [] \<Rightarrow> None
      | c # cs \<Rightarrow>
          if c = 45 then map_option uminus (read_decimal cs)
          else if c = 43 then read_decimal cs
          else read_decimal s)"

definition ascii_lower :: "pystr \<Rightarrow> pystr" where
  "ascii_lower s = map (\<lambda>c. if 65 \<le> c \<and> c \<le> 90 then c + 32 else c) s"

definition ascii_upper :: "pystr \<Rightarrow> pystr" where
  "ascii_upper s = map (\<lambda>c. if 97 \<le> c \<and> c \<le> 122 then c - 32 else c) s"

text \<open>\<open>quote_plus\<close> on text made of letters, digits, \<open>_.-~\<close> and spaces, and
  on text with a surrogate code point (U+D800 to U+DFFF), which UTF-8 cannot encode.\<close>

definition plain_quote_plus :: "pystr \<Rightarrow> pystr option" where
  "plain_quote_plus s =
     (if list_ex (\<lambda>c. 55296 \<le> c \<and> c \<le> 57343) s then None
      else Some (map (\<lambda>c. if c = 32 then 43 else c) s))"

definition ascii_rt :: "rat runtime" where
  "ascii_rt =
     \<lparr>rt_isdigit = (\<lambda>c. 48 \<le> c \<and> c \<le> 57),
      rt_lower = ascii_lower,
      rt_upper = ascii_upper,
      rt_int_of_str = read_int,
      rt_float_of_str = read_float,
      rt_float_of_int = (\<lambda>i. Some (of_int i)),
      rt_int_of_float = (\<lambda>f. Inr (if 0 \<le> f then \<lfloor>f\<rfloor> else \<lceil>f\<rceil>)),
      rt_float_is_zero = (\<lambda>f. f = 0),
      rt_float_less = (\<lambda>a b. a < b),
      rt_quote_plus = plain_quote_plus\<rparr>"

section \<open>Properties of the text functions\<close>

text \<open>The trailing whitespace-delimited token of a text, as the specification words it:
  the longest suffix without whitespace.\<close>

definition trailing_token :: "pystr \<Rightarrow> pystr" where
  "trailing_token t = rev (takeWhile (\<lambda>c. \<not> isspace c) (rev t))"

text \<open>The currency rule in the words of the specification: the first character when it
  is one of the four currency symbols, else the trailing token when it has three or four
  characters, else empty.\<close>

definition currency_rule :: "pystr \<Rightarrow> pystr" where
  "currency_rule t =
     (case t of
        [] \<Rightarrow> []
      | c # _ \<Rightarrow>
          if c = dollar \<or> c = euro \<or> c = pound \<or> c = yen then [c]
          else if length (trailing_token t) = 3 \<or> length (trailing_token t) = 4
               then trailing_token t
               else [])"

lemma strip_hd: "py_strip s \<noteq> [] \<Longrightarrow> \<not> isspace (hd (py_strip s))"
proof -
  assume a: "py_strip s \<noteq> []"
  let ?d = "dropWhile isspace s"
  have d: "?d \<noteq> []"
  proof
    assume "?d = []"
    then have "py_strip s = []" unfolding py_strip_def by (simp del: dropWhile_eq_Nil_conv)
    with a show False by simp
  qed
  then have h: "\<not> isspace (hd ?d)" by (rule hd_dropWhile)
  obtain c cs where dc: "?d = c # cs" using d by (cases ?d) auto
  have nc: "\<not> isspace c" using h dc by simp
  have "dropWhile isspace (rev cs @ [c]) = dropWhile isspace (rev cs) @ [c]"
    using nc by (simp add: dropWhile_append)
  then have "py_strip s = c # rev (dropWhile isspace (rev cs))"
    using dc by (simp add: py_strip_def)
  then show ?thesis using nc by simp
qed

lemma strip_last: "py_strip s \<noteq> [] \<Longrightarrow> \<not> isspace (last (py_strip s))"
proof -
  assume a: "py_strip s \<noteq> []"
  let ?e = "dropWhile isspace (rev (dropWhile isspace s))"
  have e: "?e \<noteq> []" using a by (simp add: py_strip_def)
  then have "\<not> isspace (hd ?e)" by (rule hd_dropWhile)
  moreover have "last (py_strip s) = hd ?e" using e by (simp add: py_strip_def last_rev)
  ultimately show ?thesis by simp
qed

lemma first_text_stripped:
  "first_text els \<noteq> [] \<Longrightarrow>
     \<not> isspace (hd (first_text els)) \<and> \<not> isspace (last (first_text els))"
  by (cases els) (auto simp: first_text_def strip_hd strip_last)

lemma trailing_token_space:
  "isspace c \<Longrightarrow> trailing_token (xs @ c # cs) = trailing_token cs"
  by (simp add: trailing_token_def takeWhile_tail)

lemma trailing_token_all:
  "\<forall>c\<in>set xs. \<not> isspace c \<Longrightarrow> trailing_token xs = xs"
proof -
  assume "\<forall>c\<in>set xs. \<not> isspace c"
  then have "takeWhile (\<lambda>c. \<not> isspace c) (rev xs) = rev xs"
    by (simp only: takeWhile_eq_all_conv set_rev)
  then show ?thesis unfolding trailing_token_def by (simp only: rev_rev_ident)
qed

lemma split_acc_last:
  "\<forall>c\<in>set tok. \<not> isspace c \<Longrightarrow> s \<noteq> [] \<Longrightarrow> \<not> isspace (last s) \<Longrightarrow>
     split_acc tok s \<noteq> [] \<and> last (split_acc tok s) = trailing_token (rev tok @ s)"
proof (induction s arbitrary: tok)
  case Nil
  then show ?case by simp
next
  case (Cons c cs)
  show ?case
  proof (cases "cs = []")
    case True
    with Cons.prems show ?thesis by (simp add: trailing_token_all)
  next
    case False
    with Cons.prems have l: "\<not> isspace (last cs)" by simp
    show ?thesis
    proof (cases "isspace c")
      case True
      have "split_acc [] cs \<noteq> [] \<and> last (split_acc [] cs) = trailing_token (rev [] @ cs)"
        using Cons.IH[of "[]"] False l by simp
      then show ?thesis using True by (simp add: trailing_token_space)
    next
      case nsp: False
      have "split_acc (c # tok) cs \<noteq> [] \<and>
            last (split_acc (c # tok) cs) = trailing_token (rev (c # tok) @ cs)"
        using Cons.IH[of "c # tok"] False l nsp Cons.prems(1) by simp
      then show ?thesis using nsp by simp
    qed
  qed
qed

lemma py_split_last:
  "s \<noteq> [] \<Longrightarrow> \<not> isspace (last s) \<Longrightarrow>
     py_split s \<noteq> [] \<and> last (py_split s) = trailing_token s"
  using split_acc_last[of "[]" s] by (simp add: py_split_def)

lemma strip_id:
  assumes "s \<noteq> []" "\<not> isspace (hd s)" "\<not> isspace (last s)"
  shows "py_strip s = s"
proof -
  obtain c cs where s: "s = c # cs" using assms(1) by (cases s) auto
  have d1: "dropWhile isspace s = s" using assms(2) s by simp
  obtain xs x where sx: "s = xs @ [x]" using assms(1) by (cases s rule: rev_cases) auto
  have nx: "\<not> isspace x" using assms(3) sx by simp
  have "dropWhile isspace (rev (xs @ [x])) = rev (xs @ [x])" using nx by simp
  then have "dropWhile isspace (rev s) = rev s" by (simp only: sx)
  then show ?thesis using d1 by (simp add: py_strip_def)
qed

lemma parse_currency_stripped:
  assumes "t = [] \<or> (\<not> isspace (hd t) \<and> \<not> isspace (last t))"
  shows "parse_currency t = Some (currency_rule t)"
proof (cases "t = []")
  case True
  then show ?thesis by (simp add: parse_currency_def currency_rule_def)
next
  case False
  with assms have ns: "\<not> isspace (hd t)" "\<not> isspace (last t)" by auto
  have st: "py_strip t = t" using strip_id[OF False ns] .
  obtain c cs where t: "t = c # cs" using False by (cases t) auto
  have sp: "py_split t \<noteq> []" "last (py_split t) = trailing_token t"
    using py_split_last[OF False ns(2)] by auto
  then obtain k ks where k: "py_split t = k # ks" by (cases "py_split t") auto
  show ?thesis
  proof (cases "c \<in> set currency_symbols")
    case True
    then show ?thesis using st t False
      by (auto simp: parse_currency_def currency_rule_def currency_symbols_def)
  next
    case nsym: False
    have "parse_currency t =
            (let last_token = last (k # ks) in
             if length last_token = 3 \<or> length last_token = 4 then Some last_token else Some [])"
      using st t nsym k by (simp add: parse_currency_def)
    also have "\<dots> = Some (currency_rule t)"
      using sp(2) k nsym t by (auto simp: currency_rule_def currency_symbols_def Let_def)
    finally show ?thesis .
  qed
qed

lemma parse_currency_first_text:
  "parse_currency (first_text els) = Some (currency_rule (first_text els))"
  using first_text_stripped[of els] by (intro parse_currency_stripped) auto

section \<open>Properties of \<open>_parse_single_card\<close>\<close>

lemma card_fields_SomeD:
  assumes "card_fields rt cd mr mv ex a t u = Some (Some r)"
  shows "asin r = a \<and> title r = t \<and> productUrl r = u \<and>
    (\<exists>els. locator cd Sel_price = Some els \<and> priceText r = first_text els) \<and>
    price r = (if priceText r \<noteq> [] then parse_price rt (priceText r) else None) \<and>
    parse_currency (priceText r) = Some (currency r) \<and>
    categoryPath r = None \<and> featureBullets r = None"
  using assms
  apply (simp only: card_fields_def Option.bind_eq_Some_conv Let_def)
  apply (elim exE conjE)
  apply (auto split: if_split_asm simp: Option.bind_eq_Some_conv)
  done

lemma card_body_SomeD:
  assumes "card_body rt cd base mr mv ex = Some (Some r)"
  shows "\<exists>a link links h. data_asin cd = Some (Some a) \<and> a \<noteq> [] \<and>
           title_links cd = Some (link # links) \<and> href link = Some h \<and> h \<noteq> [] \<and>
           card_fields rt cd mr mv ex a (py_strip (or_empty (text_content link)))
             (product_url_of base h) = Some (Some r)"
proof -
  from assms obtain aa where a: "data_asin cd = Some aa" "or_empty aa \<noteq> []"
    by (auto simp: card_body_def Option.bind_eq_Some_conv split: if_splits)
  then obtain a0 where a0: "aa = Some a0" "a0 \<noteq> []"
    by (cases aa) (auto simp: or_empty_def)
  from assms a obtain els where els: "title_links cd = Some els"
    by (auto simp: card_body_def Option.bind_eq_Some_conv split: if_splits)
  with assms a obtain link links where l: "els = link # links"
    by (cases els) (auto simp: card_body_def)
  from assms a els l have h: "or_empty (href link) \<noteq> []"
    "card_fields rt cd mr mv ex (or_empty aa) (py_strip (or_empty (text_content link)))
             (product_url_of base (or_empty (href link))) = Some (Some r)"
    by (auto simp: card_body_def Let_def split: if_splits)
  then obtain h0 where h0: "href link = Some h0" "h0 \<noteq> []"
    by (cases "href link") (auto simp: or_empty_def)
  show ?thesis using a a0 els l h h0 by (auto simp: or_empty_def)
qed

lemma parse_single_card_SomeD:
  assumes "parse_single_card rt cd base mr mv ex = Some r"
  shows "card_body rt cd base mr mv ex = Some (Some r)"
  using assms by (auto simp: parse_single_card_def split: option.splits)

text \<open>What a selector finds on a card whose reads do not raise, and the cards on which no
  read raises.\<close>

definition located :: "card \<Rightarrow> selector \<Rightarrow> elem list" where
  "located cd s = (case locator cd s of None \<Rightarrow> [] | Some els \<Rightarrow> els)"

definition all_selectors :: "selector list" where
  "all_selectors =
     [Sel_title, Sel_title_fallback, Sel_price, Sel_original_price, Sel_rating, Sel_reviews,
      Sel_prime, Sel_brand, Sel_badge, Sel_sponsored, Sel_image]"

definition readable :: "card \<Rightarrow> bool" where
  "readable cd \<longleftrightarrow>
     data_asin cd \<noteq> None \<and> data_brand cd \<noteq> None \<and>
     list_all (\<lambda>s. locator cd s \<noteq> None) all_selectors"

text \<open>The three filters of lines 253-258 let the card through.\<close>

definition passes_filters ::
  "'f runtime \<Rightarrow> card \<Rightarrow> 'f option \<Rightarrow> int option \<Rightarrow> bool \<Rightarrow> bool"
where
  "passes_filters rt cd min_rating min_reviews exclude_sponsored \<longleftrightarrow>
     \<not> filtered_out rt min_rating min_reviews exclude_sponsored
         (parse_rating rt (first_text (located cd Sel_rating)))
         (parse_reviews rt (first_text (located cd Sel_reviews)))
         (sponsored_flag rt (located cd Sel_sponsored))"

lemma readable_locator: "readable cd \<Longrightarrow> locator cd s = Some (located cd s)"
  by (cases s) (auto simp: readable_def all_selectors_def located_def)

lemma card_fields_produces:
  assumes r: "readable cd" and f: "passes_filters rt cd mr mv ex"
  shows "\<exists>r. card_fields rt cd mr mv ex a t u = Some (Some r)"
proof -
  obtain b where b: "data_brand cd = Some b" using r by (auto simp: readable_def)
  note l = readable_locator[OF r]
  show ?thesis
    using f unfolding card_fields_def passes_filters_def
    by (simp add: l b parse_currency_first_text Let_def)
qed

lemma card_body_produces:
  assumes "readable cd" "passes_filters rt cd mr mv ex"
    and "data_asin cd = Some (Some a)" "a \<noteq> []"
    and "title_links cd = Some (link # links)" "href link = Some h" "h \<noteq> []"
  shows "\<exists>r. card_body rt cd base mr mv ex = Some (Some r)"
  using card_fields_produces[OF assms(1,2)] assms(3-)
  by (simp add: card_body_def or_empty_def)


subsection \<open>Example cards\<close>

definition text_elem :: "pystr \<Rightarrow> elem" where
  "text_elem t = \<lparr>text_content = Some t, href = None, src = None\<rparr>"

definition link_elem :: "pystr \<Rightarrow> pystr \<Rightarrow> elem" where
  "link_elem t h = \<lparr>text_content = Some t, href = Some h, src = None\<rparr>"

text \<open>A card with an ASIN, a title link and one price element showing the given text.\<close>

definition priced_card :: "pystr \<Rightarrow> card" where
  "priced_card price_txt =
     \<lparr>data_asin = Some (Some (ascii ''B0EXAMPLE1'')), data_brand = Some None,
      locator = (\<lambda>s. Some (if s = Sel_title
                             then [link_elem (ascii ''Case'') (ascii ''/dp/B0EXAMPLE1?ref=sr'')]
                           else if s = Sel_price then [text_elem price_txt] else [])),
      expires = False\<rparr>"

definition amazon_de :: pystr where
  "amazon_de = ascii ''https://www.amazon.de''"

definition euro_price_text :: pystr where
  "euro_price_text = ascii ''92,14 '' @ [euro]"

lemma priced_card_readable: "readable (priced_card t)"
  by (simp add: readable_def priced_card_def all_selectors_def)

lemma priced_card_passes: "passes_filters rt (priced_card t) None None False"
  by (simp add: passes_filters_def filtered_out_def)

lemma priced_card_title: "title_links (priced_card t) =
    Some [link_elem (ascii ''Case'') (ascii ''/dp/B0EXAMPLE1?ref=sr'')]"
  by (simp add: title_links_def priced_card_def)

lemma priced_card_produces:
  "\<exists>r. parse_single_card rt (priced_card t) base None None False = Some r"
proof -
  have a: "data_asin (priced_card t) = Some (Some (ascii ''B0EXAMPLE1''))"
    by (simp add: priced_card_def)
  have h: "href (link_elem (ascii ''Case'') (ascii ''/dp/B0EXAMPLE1?ref=sr'')) =
             Some (ascii ''/dp/B0EXAMPLE1?ref=sr'')"
    by (simp add: link_elem_def)
  have "\<exists>r. card_body rt (priced_card t) base None None False = Some (Some r)"
    by (rule card_body_produces[OF priced_card_readable priced_card_passes a _
          priced_card_title h]) (simp_all add: ascii_def)
  then show ?thesis by (auto simp: parse_single_card_def)
qed

lemma priced_card_priceText:
  assumes "parse_single_card rt (priced_card t) base None None False = Some r"
  shows "priceText r = py_strip t"
proof -
  from parse_single_card_SomeD[OF assms] card_body_SomeD obtain a tt u where
    "card_fields rt (priced_card t) None None False a tt u = Some (Some r)" by blast
  from card_fields_SomeD[OF this] obtain els where
    "locator (priced_card t) Sel_price = Some els" "priceText r = first_text els" by blast
  then show ?thesis by (auto simp: priced_card_def first_text_def text_elem_def or_empty_def)
qed

lemma euro_price_text_strip: "py_strip euro_price_text = euro_price_text"
  by (simp add: euro_price_text_def py_strip_def ascii_def euro_def isspace_def)

lemma currency_rule_euro: "currency_rule euro_price_text = []"
  by (simp add: currency_rule_def euro_price_text_def ascii_def euro_def dollar_def pound_def
      yen_def trailing_token_def isspace_def)

subsection \<open>Currency\<close>

text \<open>
  C4 (as amended). For every record the extractor produces, the currency field follows the
  rule applied to the record's price text: the first character when it is one of the
  symbols \<open>$\<close>, euro, pound, yen; otherwise the trailing whitespace-delimited token
  when it is 3 or 4 characters long; otherwise empty. The rule looks for a leading symbol
  only: the price text \<open>92,14\<close> followed by a space and the euro sign starts with
  \<open>9\<close> and ends in a token of length 1, so its currency is empty.
\<close>

theorem currency_leading_symbol_or_trailing_code:
  assumes "parse_single_card rt cd base_url min_rating min_reviews exclude_sponsored = Some r"
  shows "currency r = currency_rule (priceText r) \<and>
         (priceText r = ascii ''92,14 '' @ [euro] \<longrightarrow> currency r = [])"
proof -
  from parse_single_card_SomeD[OF assms] card_body_SomeD obtain a tt u where
    "card_fields rt cd min_rating min_reviews exclude_sponsored a tt u = Some (Some r)" by blast
  from card_fields_SomeD[OF this] obtain els where
    p: "priceText r = first_text els" and c: "parse_currency (priceText r) = Some (currency r)"
    by blast
  have "currency r = currency_rule (priceText r)"
    using c parse_currency_first_text[of els] p by simp
  then show ?thesis using currency_rule_euro by (auto simp: euro_price_text_def)
qed

theorem currency_leading_symbol_or_trailing_code_witness:
  "\<exists>r. parse_single_card ascii_rt (priced_card euro_price_text) amazon_de None None False = Some r
       \<and> priceText r = ascii ''92,14 '' @ [euro]
       \<and> currency r = currency_rule (priceText r) \<and> currency r = []"
proof -
  obtain r where r:
    "parse_single_card ascii_rt (priced_card euro_price_text) amazon_de None None False = Some r"
    using priced_card_produces by blast
  have p: "priceText r = ascii ''92,14 '' @ [euro]"
    using priced_card_priceText[OF r] euro_price_text_strip by (simp add: euro_price_text_def)
  show ?thesis
    using currency_leading_symbol_or_trailing_code[OF r] r p by auto
qed

text \<open>
  C4 as stated fails: the card whose price element shows \<open>92,14\<close>, a space and the
  euro sign yields a record with that price text and the empty currency, not the euro sign.
\<close>

theorem euro_suffix_currency_counterexample:
  "map_option priceText
     (parse_single_card ascii_rt (priced_card euro_price_text) amazon_de None None False)
     = Some (ascii ''92,14 '' @ [euro])
   \<and> map_option currency
       (parse_single_card ascii_rt (priced_card euro_price_text) amazon_de None None False)
       = Some []
   \<and> map_option currency
       (parse_single_card ascii_rt (priced_card euro_price_text) amazon_de None None False)
       \<noteq> Some [euro]"
proof -
  obtain r where r:
    "parse_single_card ascii_rt (priced_card euro_price_text) amazon_de None None False = Some r"
    using priced_card_produces by blast
  have p: "priceText r = euro_price_text"
    using priced_card_priceText[OF r] euro_price_text_strip by simp
  have "card_body ascii_rt (priced_card euro_price_text) amazon_de None None False = Some (Some r)"
    using parse_single_card_SomeD[OF r] .
  from card_body_SomeD[OF this] obtain a tt u where
    "card_fields ascii_rt (priced_card euro_price_text) None None False a tt u = Some (Some r)"
    by blast
  from card_fields_SomeD[OF this] have "parse_currency (priceText r) = Some (currency r)" by blast
  then have "currency r = []"
    using p parse_currency_stripped[of euro_price_text] currency_rule_euro euro_price_text_strip
      strip_hd[of euro_price_text] strip_last[of euro_price_text]
    by (auto simp: euro_price_text_def)
  then show ?thesis using r p by (simp add: euro_price_text_def)
qed

subsection \<open>Price\<close>

text \<open>The price rule in the words of the specification: keep the digits and separators;
  when the text has a comma but no period, strip periods and turn commas into periods,
  otherwise strip commas; read the result as a float.\<close>

definition digits_and_separators :: "'f runtime \<Rightarrow> pystr \<Rightarrow> pystr" where
  "digits_and_separators rt t = filter (\<lambda>ch. rt_isdigit rt ch \<or> ch = comma \<or> ch = period) t"

definition price_rule :: "'f runtime \<Rightarrow> pystr \<Rightarrow> 'f option" where
  "price_rule rt t =
     (let d = digits_and_separators rt t in
      if d = [] then None
      else rt_float_of_str rt
             (if comma \<in> set t \<and> period \<notin> set t
              then map (\<lambda>c. if c = comma then period else c) (filter (\<lambda>c. c \<noteq> period) d)
              else filter (\<lambda>c. c \<noteq> comma) d))"








lemma price_rule_unparsable: "price_rule ascii_rt (ascii ''1,234,567'') = None"
  by (simp add: price_rule_def digits_and_separators_def ascii_rt_def ascii_def comma_def
      period_def read_float_def py_strip_def isspace_def read_decimal_def digit_val_def)






subsection \<open>Product URL\<close>

text \<open>\<open>_country_to_domain\<close>, and the \<open>base_url\<close> that \<open>_scrape_keyword\<close> (line 333)
  passes to the extractor.\<close>

definition country_to_domain :: "'f runtime \<Rightarrow> pystr \<Rightarrow> pystr" where
  "country_to_domain rt country =
     (let c = rt_upper rt country in
      if c = ascii ''US'' then ascii ''www.amazon.com''
      else if c = ascii ''UK'' then ascii ''www.amazon.co.uk''
      else if c = ascii ''DE'' then ascii ''www.amazon.de''
      else if c = ascii ''FR'' then ascii ''www.amazon.fr''
      else if c = ascii ''JP'' then ascii ''www.amazon.co.jp''
      else ascii ''www.amazon.com'')"

definition base_url_of :: "'f runtime \<Rightarrow> pystr \<Rightarrow> pystr" where
  "base_url_of rt country = ascii ''https://'' @ country_to_domain rt country"

text \<open>An absolute URL starts with a scheme (a letter, then letters, digits, \<open>+\<close>,
  \<open>-\<close> or \<open>.\<close>) and a colon.\<close>

definition is_alpha :: "pychar \<Rightarrow> bool" where
  "is_alpha c \<longleftrightarrow> (65 \<le> c \<and> c \<le> 90) \<or> (97 \<le> c \<and> c \<le> 122)"

definition scheme_char :: "pychar \<Rightarrow> bool" where
  "scheme_char c \<longleftrightarrow> is_alpha c \<or> (48 \<le> c \<and> c \<le> 57) \<or> c = 43 \<or> c = 45 \<or> c = 46"

definition absolute_url :: "pystr \<Rightarrow> bool" where
  "absolute_url u =
     (let s = takeWhile (\<lambda>c. c \<noteq> colon) u in
      s \<noteq> [] \<and> length s < length u \<and> is_alpha (hd s) \<and> list_all scheme_char s)"

lemma record_header:
  assumes "parse_single_card rt cd base mr mv ex = Some r"
  shows "\<exists>link links h.
           data_asin cd = Some (Some (asin r)) \<and> asin r \<noteq> [] \<and>
           title_links cd = Some (link # links) \<and> href link = Some h \<and> h \<noteq> [] \<and>
           title r = py_strip (or_empty (text_content link)) \<and>
           productUrl r = product_url_of base h"
proof -
  from card_body_SomeD[OF parse_single_card_SomeD[OF assms]] obtain a link links h where
    f: "data_asin cd = Some (Some a)" "a \<noteq> []" "title_links cd = Some (link # links)"
       "href link = Some h" "h \<noteq> []"
       "card_fields rt cd mr mv ex a (py_strip (or_empty (text_content link)))
             (product_url_of base h) = Some (Some r)"
    by blast
  from card_fields_SomeD[OF f(6)] have "asin r = a"
    "title r = py_strip (or_empty (text_content link))" "productUrl r = product_url_of base h"
    by auto
  with f show ?thesis by blast
qed

lemma before_query_no_mark: "question_mark \<notin> set (before_query h)"
  by (auto simp: before_query_def dest: set_takeWhileD)

lemma domain_no_mark: "question_mark \<notin> set (country_to_domain rt country)"
  by (simp add: country_to_domain_def Let_def question_mark_def ascii_def)

lemma base_url_no_mark: "question_mark \<notin> set (base_url_of rt country)"
  using domain_no_mark[of rt country]
  by (simp add: base_url_of_def question_mark_def ascii_def)

lemma base_url_absolute: "absolute_url (base_url_of rt country @ p)"
  by (simp add: absolute_url_def base_url_of_def ascii_def colon_def is_alpha_def
      scheme_char_def)


text \<open>A card with an ASIN and a title link of the given text and target, and nothing
  else.\<close>

definition linked_card :: "pystr option \<Rightarrow> pystr \<Rightarrow> card" where
  "linked_card t h =
     \<lparr>data_asin = Some (Some (ascii ''B0EXAMPLE2'')), data_brand = Some None,
      locator = (\<lambda>s. Some (if s = Sel_title
                             then [\<lparr>text_content = t, href = Some h, src = None\<rparr>] else [])),
      expires = False\<rparr>"

lemma linked_card_title:
  "title_links (linked_card t h) = Some [\<lparr>text_content = t, href = Some h, src = None\<rparr>]"
  by (simp add: title_links_def linked_card_def)

lemma linked_card_produces:
  assumes "h \<noteq> []"
  shows "\<exists>r. parse_single_card rt (linked_card t h) base None None False = Some r"
proof -
  have rd: "readable (linked_card t h)"
    by (simp add: readable_def linked_card_def all_selectors_def)
  have pf: "passes_filters rt (linked_card t h) None None False"
    by (simp add: passes_filters_def filtered_out_def)
  have a: "data_asin (linked_card t h) = Some (Some (ascii ''B0EXAMPLE2''))"
    by (simp add: linked_card_def)
  have hh: "href \<lparr>text_content = t, href = Some h, src = None\<rparr> = Some h" by simp
  have "\<exists>r. card_body rt (linked_card t h) base None None False = Some (Some r)"
    by (rule card_body_produces[OF rd pf a _ linked_card_title hh assms]) (simp add: ascii_def)
  then show ?thesis by (auto simp: parse_single_card_def)
qed

lemma linked_card_record:
  assumes "parse_single_card rt (linked_card t h) base None None False = Some r"
  shows "productUrl r = product_url_of base h" "title r = py_strip (or_empty t)"
  using record_header[OF assms] by (auto simp: linked_card_title)

text \<open>
  C9 (as amended). For every record extracted for a country, \<open>productUrl\<close> contains no
  question mark. A link target that starts with a slash is appended to the base origin of
  the country's marketplace, and the result is an absolute URL. Any other target is kept
  as it is, cut at its first question mark: it is not resolved against the base origin.
\<close>

theorem product_url_query_stripped:
  assumes "parse_single_card rt cd (base_url_of rt country) min_rating min_reviews
             exclude_sponsored = Some r"
  shows "question_mark \<notin> set (productUrl r) \<and>
         (\<exists>link links h. title_links cd = Some (link # links) \<and> href link = Some h \<and>
            (starts_with_slash h \<longrightarrow>
               productUrl r = base_url_of rt country @ before_query h \<and>
               absolute_url (productUrl r)) \<and>
            (\<not> starts_with_slash h \<longrightarrow> productUrl r = before_query h))"
proof -
  from record_header[OF assms] obtain link links h where
    f: "title_links cd = Some (link # links)" "href link = Some h"
       "productUrl r = product_url_of (base_url_of rt country) h"
    by blast
  have "question_mark \<notin> set (productUrl r)"
    using f(3) base_url_no_mark[of rt country] before_query_no_mark[of h]
    by (simp add: product_url_of_def)
  moreover have "starts_with_slash h \<longrightarrow>
       productUrl r = base_url_of rt country @ before_query h \<and> absolute_url (productUrl r)"
    using f(3) base_url_absolute[of rt country "before_query h"]
    by (simp add: product_url_of_def)
  moreover have "\<not> starts_with_slash h \<longrightarrow> productUrl r = before_query h"
    using f(3) by (simp add: product_url_of_def)
  ultimately show ?thesis using f(1,2) by blast
qed

lemma base_url_de: "base_url_of ascii_rt (ascii ''DE'') = ascii ''https://www.amazon.de''"
  by (simp add: base_url_of_def country_to_domain_def ascii_rt_def ascii_upper_def ascii_def)

theorem product_url_query_stripped_witness:
  "\<exists>r. parse_single_card ascii_rt (linked_card None (ascii ''/dp/B0EXAMPLE2?ref=sr_1''))
          (base_url_of ascii_rt (ascii ''DE'')) None None False = Some r
       \<and> productUrl r = ascii ''https://www.amazon.de/dp/B0EXAMPLE2''
       \<and> question_mark \<notin> set (productUrl r) \<and> absolute_url (productUrl r)"
proof -
  let ?h = "ascii ''/dp/B0EXAMPLE2?ref=sr_1''"
  have ne: "?h \<noteq> []" by (simp add: ascii_def)
  obtain r where r: "parse_single_card ascii_rt (linked_card None ?h)
          (base_url_of ascii_rt (ascii ''DE'')) None None False = Some r"
    using linked_card_produces[OF ne] by blast
  have sl: "starts_with_slash ?h" by (simp add: starts_with_slash_def ascii_def slash_def)
  have bq: "before_query ?h = ascii ''/dp/B0EXAMPLE2''"
    by (simp add: before_query_def ascii_def question_mark_def)
  from product_url_query_stripped[OF r] sl
  have "question_mark \<notin> set (productUrl r)"
    "productUrl r = base_url_of ascii_rt (ascii ''DE'') @ before_query ?h"
    "absolute_url (productUrl r)"
    by (auto simp: linked_card_title)
  then show ?thesis using r bq base_url_de by (auto simp: ascii_def)
qed

text \<open>
  C9 as stated fails: a title link whose target is the relative path
  \<open>dp/B0EXAMPLE2?ref=sr_1\<close> gives the product URL \<open>dp/B0EXAMPLE2\<close>, which is not
  absolute and was not resolved against the origin.
\<close>

theorem relative_href_counterexample:
  "map_option productUrl
     (parse_single_card ascii_rt (linked_card None (ascii ''dp/B0EXAMPLE2?ref=sr_1''))
        (base_url_of ascii_rt (ascii ''DE'')) None None False)
     = Some (ascii ''dp/B0EXAMPLE2'')
   \<and> \<not> absolute_url (ascii ''dp/B0EXAMPLE2'')"
proof -
  let ?h = "ascii ''dp/B0EXAMPLE2?ref=sr_1''"
  have ne: "?h \<noteq> []" by (simp add: ascii_def)
  obtain r where r: "parse_single_card ascii_rt (linked_card None ?h)
          (base_url_of ascii_rt (ascii ''DE'')) None None False = Some r"
    using linked_card_produces[OF ne] by blast
  have "product_url_of (base_url_of ascii_rt (ascii ''DE'')) ?h = ascii ''dp/B0EXAMPLE2''"
    by (simp add: product_url_of_def starts_with_slash_def before_query_def ascii_def slash_def
        question_mark_def)
  then have "productUrl r = ascii ''dp/B0EXAMPLE2''" using linked_card_record(1)[OF r] by simp
  moreover have "\<not> absolute_url (ascii ''dp/B0EXAMPLE2'')"
    by (simp add: absolute_url_def ascii_def colon_def)
  ultimately show ?thesis using r by simp
qed

subsection \<open>Record or discard\<close>

text \<open>The selectors that every extraction reaching the end of the function reads; the
  fallback title selector and the brand selector are read on some paths only.\<close>

definition unconditional_reads :: "selector list" where
  "unconditional_reads =
     [Sel_title, Sel_price, Sel_original_price, Sel_rating, Sel_reviews, Sel_prime, Sel_badge,
      Sel_sponsored, Sel_image]"

lemma card_fields_reads:
  assumes "card_fields rt cd mr mv ex a t u = Some (Some r)"
  shows "data_brand cd \<noteq> None \<and> locator cd Sel_price \<noteq> None \<and>
    locator cd Sel_original_price \<noteq> None \<and> locator cd Sel_rating \<noteq> None \<and>
    locator cd Sel_reviews \<noteq> None \<and> locator cd Sel_prime \<noteq> None \<and>
    locator cd Sel_badge \<noteq> None \<and> locator cd Sel_sponsored \<noteq> None \<and>
    locator cd Sel_image \<noteq> None"
  using assms
  apply (simp only: card_fields_def Option.bind_eq_Some_conv Let_def)
  apply (elim exE conjE)
  apply (auto split: if_split_asm simp: Option.bind_eq_Some_conv)
  done

lemma title_links_SomeD: "title_links cd = Some els \<Longrightarrow> locator cd Sel_title \<noteq> None"
  by (auto simp: title_links_def Option.bind_eq_Some_conv)

lemma title_links_absent:
  "locator cd Sel_title = Some [] \<Longrightarrow> locator cd Sel_title_fallback = Some [] \<Longrightarrow>
     title_links cd = Some []"
  by (simp add: title_links_def)

lemma record_reads:
  assumes "parse_single_card rt cd base mr mv ex = Some r"
  shows "data_brand cd \<noteq> None" "s \<in> set unconditional_reads \<Longrightarrow> locator cd s \<noteq> None"
proof -
  from card_body_SomeD[OF parse_single_card_SomeD[OF assms]] obtain a link links h where
    f: "title_links cd = Some (link # links)"
       "card_fields rt cd mr mv ex a (py_strip (or_empty (text_content link)))
             (product_url_of base h) = Some (Some r)"
    by blast
  note g = card_fields_reads[OF f(2)] title_links_SomeD[OF f(1)]
  show "data_brand cd \<noteq> None" using g by simp
  show "s \<in> set unconditional_reads \<Longrightarrow> locator cd s \<noteq> None"
    using g by (auto simp: unconditional_reads_def)
qed

lemma extract_product_cards_source:
  "r \<in> set (extract_product_cards rt cards base mr mv ex) \<Longrightarrow>
     \<exists>c\<in>set cards. \<not> expires c \<and> parse_single_card rt c base mr mv ex = Some r"
  by (induction cards) (auto split: if_splits option.splits)

lemma extract_product_cards_length:
  "length (extract_product_cards rt cards base mr mv ex) \<le> length cards"
  by (induction cards) (auto split: if_splits option.splits)


lemma no_asin_discarded:
  "data_asin cd = Some a \<Longrightarrow> or_empty a = [] \<Longrightarrow>
     parse_single_card rt cd base mr mv ex = None"
  by (simp add: parse_single_card_def card_body_def)

lemma no_title_discarded:
  "title_links cd = Some [] \<Longrightarrow> parse_single_card rt cd base mr mv ex = None"
  by (cases "data_asin cd") (auto simp: parse_single_card_def card_body_def)

text \<open>
  C8. The extractor returns a complete record or nothing. A card whose ASIN attribute is
  absent or empty is discarded; so is a card for which neither title selector matches; so
  is a card on which the body of the extractor raises, in particular when a read of the
  ASIN, of the brand attribute or of one of the selectors read on every path raises: the
  failure is never propagated. Every record returned, and every record in the output of
  the batch extractor, comes from a card with that non-empty ASIN and a title link with a
  non-empty target.
\<close>

theorem extractor_record_or_discard:
  "(\<forall>a. data_asin cd = Some a \<and> or_empty a = [] \<longrightarrow>
       parse_single_card rt cd base_url min_rating min_reviews exclude_sponsored = None)
   \<and> (locator cd Sel_title = Some [] \<and> locator cd Sel_title_fallback = Some [] \<longrightarrow>
       parse_single_card rt cd base_url min_rating min_reviews exclude_sponsored = None)
   \<and> (card_body rt cd base_url min_rating min_reviews exclude_sponsored = None \<longrightarrow>
       parse_single_card rt cd base_url min_rating min_reviews exclude_sponsored = None)
   \<and> (data_asin cd = None \<or> data_brand cd = None \<or>
        (\<exists>s\<in>set unconditional_reads. locator cd s = None) \<longrightarrow>
       parse_single_card rt cd base_url min_rating min_reviews exclude_sponsored = None)
   \<and> (\<forall>r. parse_single_card rt cd base_url min_rating min_reviews exclude_sponsored = Some r \<longrightarrow>
          asin r \<noteq> [] \<and> data_asin cd = Some (Some (asin r)) \<and>
          (\<exists>link links h. title_links cd = Some (link # links) \<and> href link = Some h \<and> h \<noteq> []))
   \<and> (\<forall>r\<in>set (extract_product_cards rt cards base_url min_rating min_reviews exclude_sponsored).
          \<exists>c\<in>set cards. parse_single_card rt c base_url min_rating min_reviews exclude_sponsored
                            = Some r \<and>
             asin r \<noteq> [] \<and> data_asin c = Some (Some (asin r)) \<and>
             (\<exists>link links. title_links c = Some (link # links)))"
proof -
  let ?p = "parse_single_card rt cd base_url min_rating min_reviews exclude_sponsored"
  have 1: "\<forall>a. data_asin cd = Some a \<and> or_empty a = [] \<longrightarrow> ?p = None"
    using no_asin_discarded by blast
  have 2: "locator cd Sel_title = Some [] \<and> locator cd Sel_title_fallback = Some [] \<longrightarrow> ?p = None"
    using no_title_discarded title_links_absent by blast
  have 3: "card_body rt cd base_url min_rating min_reviews exclude_sponsored = None \<longrightarrow> ?p = None"
    by (simp add: parse_single_card_def)
  have 4: "data_asin cd = None \<or> data_brand cd = None \<or>
        (\<exists>s\<in>set unconditional_reads. locator cd s = None) \<longrightarrow> ?p = None"
  proof (cases ?p)
    case None
    then show ?thesis by simp
  next
    case (Some r)
    have "data_asin cd \<noteq> None" using record_header[OF Some] by auto
    moreover have "data_brand cd \<noteq> None" using record_reads(1)[OF Some] .
    moreover have "\<forall>s\<in>set unconditional_reads. locator cd s \<noteq> None"
      using record_reads(2)[OF Some] by blast
    ultimately show ?thesis by blast
  qed
  have 5: "\<forall>r. ?p = Some r \<longrightarrow>
          asin r \<noteq> [] \<and> data_asin cd = Some (Some (asin r)) \<and>
          (\<exists>link links h. title_links cd = Some (link # links) \<and> href link = Some h \<and> h \<noteq> [])"
    using record_header by blast
  have 6: "\<forall>r\<in>set (extract_product_cards rt cards base_url min_rating min_reviews exclude_sponsored).
          \<exists>c\<in>set cards. parse_single_card rt c base_url min_rating min_reviews exclude_sponsored
                            = Some r \<and>
             asin r \<noteq> [] \<and> data_asin c = Some (Some (asin r)) \<and>
             (\<exists>link links. title_links c = Some (link # links))"
  proof
    fix r
    assume "r \<in> set (extract_product_cards rt cards base_url min_rating min_reviews exclude_sponsored)"
    from extract_product_cards_source[OF this] obtain c where
      c: "c \<in> set cards" "parse_single_card rt c base_url min_rating min_reviews exclude_sponsored = Some r"
      by blast
    from record_header[OF c(2)] c show "\<exists>c\<in>set cards.
        parse_single_card rt c base_url min_rating min_reviews exclude_sponsored = Some r \<and>
             asin r \<noteq> [] \<and> data_asin c = Some (Some (asin r)) \<and>
             (\<exists>link links. title_links c = Some (link # links))" by blast
  qed
  show ?thesis using 1 2 3 4 5 6 by blast
qed

text \<open>Three cards that are discarded: no ASIN attribute, no title link, a raising read.\<close>

definition card_without_asin :: card where
  "card_without_asin = (priced_card (ascii ''$9.99''))\<lparr>data_asin := Some None\<rparr>"

definition card_without_title :: card where
  "card_without_title =
     (priced_card (ascii ''$9.99''))\<lparr>locator := (\<lambda>s. Some (if s = Sel_price
        then [text_elem (ascii ''$9.99'')] else []))\<rparr>"

definition card_raising :: card where
  "card_raising =
     (priced_card (ascii ''$9.99''))\<lparr>locator := (\<lambda>s. if s = Sel_rating then None
        else locator (priced_card (ascii ''$9.99'')) s)\<rparr>"

theorem extractor_record_or_discard_witness:
  "parse_single_card ascii_rt card_without_asin amazon_de None None False = None
   \<and> parse_single_card ascii_rt card_without_title amazon_de None None False = None
   \<and> parse_single_card ascii_rt card_raising amazon_de None None False = None
   \<and> extract_product_cards ascii_rt [card_without_asin, card_without_title, card_raising]
        amazon_de None None False = []"
proof -
  have a: "data_asin card_without_asin = Some None \<and> or_empty None = []"
    by (simp add: card_without_asin_def or_empty_def)
  have 1: "parse_single_card ascii_rt card_without_asin amazon_de None None False = None"
    using extractor_record_or_discard[of card_without_asin ascii_rt amazon_de None None False "[]"] a
    by blast
  have t: "locator card_without_title Sel_title = Some [] \<and>
           locator card_without_title Sel_title_fallback = Some []"
    by (simp add: card_without_title_def)
  have 2: "parse_single_card ascii_rt card_without_title amazon_de None None False = None"
    using extractor_record_or_discard[of card_without_title ascii_rt amazon_de None None False "[]"] t
    by blast
  have r: "\<exists>s\<in>set unconditional_reads. locator card_raising s = None"
    by (simp add: card_raising_def unconditional_reads_def)
  have 3: "parse_single_card ascii_rt card_raising amazon_de None None False = None"
    using extractor_record_or_discard[of card_raising ascii_rt amazon_de None None False "[]"] r
    by blast
  show ?thesis using 1 2 3 by simp
qed

lemma strip_empty: "py_strip [] = []"
  by (simp add: py_strip_def)

subsection \<open>Empty titles\<close>

text \<open>
  C10 (as amended). For every card with a non-empty ASIN whose title link exists and has a
  non-empty target, on which no read raises and which the rating, review and sponsored
  filters let through, a record is produced even when the text of the link is empty or
  missing; its title is then the empty string. The text of the title never causes a
  discard.
\<close>

theorem empty_title_is_no_discard:
  assumes "readable cd" and "passes_filters rt cd min_rating min_reviews exclude_sponsored"
    and "data_asin cd = Some (Some a)" and "a \<noteq> []"
    and "title_links cd = Some (link # links)" and "href link = Some h" and "h \<noteq> []"
  shows "\<exists>r. parse_single_card rt cd base_url min_rating min_reviews exclude_sponsored = Some r \<and>
             asin r = a \<and> title r = py_strip (or_empty (text_content link)) \<and>
             (text_content link = None \<or> text_content link = Some [] \<longrightarrow> title r = [])"
proof -
  from card_body_produces[OF assms] obtain r where
    "card_body rt cd base_url min_rating min_reviews exclude_sponsored = Some (Some r)" by blast
  then have r: "parse_single_card rt cd base_url min_rating min_reviews exclude_sponsored = Some r"
    by (simp add: parse_single_card_def)
  from record_header[OF r] assms have
    "asin r = a" "title r = py_strip (or_empty (text_content link))" by auto
  then show ?thesis using r by (auto simp: or_empty_def strip_empty)
qed

theorem empty_title_is_no_discard_witness:
  "(\<exists>r. parse_single_card ascii_rt (linked_card None (ascii ''/dp/B0EXAMPLE2'')) amazon_de
          None None False = Some r \<and> asin r = ascii ''B0EXAMPLE2'' \<and> title r = [])
   \<and> (\<exists>r. parse_single_card ascii_rt (linked_card (Some []) (ascii ''/dp/B0EXAMPLE2'')) amazon_de
          None None False = Some r \<and> asin r = ascii ''B0EXAMPLE2'' \<and> title r = [])"
proof -
  let ?h = "ascii ''/dp/B0EXAMPLE2''"
  have ne: "?h \<noteq> []" "ascii ''B0EXAMPLE2'' \<noteq> []" by (simp_all add: ascii_def)
  have rd: "\<And>t. readable (linked_card t ?h)"
    by (simp add: readable_def linked_card_def all_selectors_def)
  have pf: "\<And>t. passes_filters ascii_rt (linked_card t ?h) None None False"
    by (simp add: passes_filters_def filtered_out_def)
  have a: "\<And>t. data_asin (linked_card t ?h) = Some (Some (ascii ''B0EXAMPLE2''))"
    by (simp add: linked_card_def)
  have hh: "\<And>t. href \<lparr>text_content = t, href = Some ?h, src = None\<rparr> = Some ?h" by simp
  have 1: "\<exists>r. parse_single_card ascii_rt (linked_card None ?h) amazon_de
          None None False = Some r \<and> asin r = ascii ''B0EXAMPLE2'' \<and> title r = []"
    using empty_title_is_no_discard[OF rd pf a ne(2) linked_card_title hh ne(1),
        of None amazon_de]
    by auto
  have 2: "\<exists>r. parse_single_card ascii_rt (linked_card (Some []) ?h) amazon_de
          None None False = Some r \<and> asin r = ascii ''B0EXAMPLE2'' \<and> title r = []"
    using empty_title_is_no_discard[OF rd pf a ne(2) linked_card_title hh ne(1),
        of "Some []" amazon_de]
    by auto
  show ?thesis using 1 2 by blast
qed

text \<open>
  C10 as stated fails: a title link with a non-empty target is not enough for a record. The
  card below has such a link and no ASIN attribute, and it is discarded.
\<close>

definition linked_card_without_asin :: card where
  "linked_card_without_asin =
     (linked_card (Some (ascii ''Cable'')) (ascii ''/dp/B0EXAMPLE2''))\<lparr>data_asin := Some None\<rparr>"

theorem link_without_asin_counterexample:
  "title_links linked_card_without_asin =
     Some [\<lparr>text_content = Some (ascii ''Cable''), href = Some (ascii ''/dp/B0EXAMPLE2''),
            src = None\<rparr>]
   \<and> parse_single_card ascii_rt linked_card_without_asin amazon_de None None False = None"
proof -
  have "title_links linked_card_without_asin =
     Some [\<lparr>text_content = Some (ascii ''Cable''), href = Some (ascii ''/dp/B0EXAMPLE2''),
            src = None\<rparr>]"
    by (simp add: linked_card_without_asin_def title_links_def linked_card_def)
  moreover have "parse_single_card ascii_rt linked_card_without_asin amazon_de None None False
      = None"
    by (rule no_asin_discarded[where a = None])
       (simp_all add: linked_card_without_asin_def or_empty_def)
  ultimately show ?thesis by simp
qed

section \<open>Input normalization\<close>

text \<open>
  The raw Actor input is a JSON object: its values are \<open>None\<close>, booleans, integers,
  floats, strings, lists and objects. \<open>raw.get(key)\<close> is the lookup of the map.
\<close>

datatype 'f pyval =
    PNone | PBool bool | PInt int | PFloat 'f | PStr pystr
  | PList "'f pyval list" | PDict "(pystr \<times> 'f pyval) list"

type_synonym 'f raw_input = "string \<Rightarrow> 'f pyval option"

text \<open>\<open>AmazonSearchInput\<close>; the field \<open>keywords\<close> is named \<open>input_keywords\<close>.\<close>

record 'f amazon_search_input =
  input_keywords :: "pystr list"
  max_items_per_keyword :: int
  max_pages :: int
  country :: pystr
  min_rating :: "'f option"
  min_reviews :: "int option"
  exclude_sponsored :: bool
  fetch_details :: bool
  max_detail_items :: int

text \<open>Truth value, \<open>int(v)\<close> and \<open>float(v)\<close> of a JSON value, with the exception each
  raises.\<close>

fun truthy :: "'f runtime \<Rightarrow> 'f pyval \<Rightarrow> bool" where
  "truthy rt PNone = False"
| "truthy rt (PBool b) = b"
| "truthy rt (PInt i) = (i \<noteq> 0)"
| "truthy rt (PFloat f) = (\<not> rt_float_is_zero rt f)"
| "truthy rt (PStr s) = (s \<noteq> [])"
| "truthy rt (PList xs) = (xs \<noteq> [])"
| "truthy rt (PDict kvs) = (kvs \<noteq> [])"

fun py_int :: "'f runtime \<Rightarrow> 'f pyval \<Rightarrow> exn + int" where
  "py_int rt PNone = Inl TypeError"
| "py_int rt (PBool b) = Inr (if b then 1 else 0)"
| "py_int rt (PInt i) = Inr i"
| "py_int rt (PFloat f) = rt_int_of_float rt f"
| "py_int rt (PStr s) = (case rt_int_of_str rt s of None \<Rightarrow> Inl ValueError | Some i \<Rightarrow> Inr i)"
| "py_int rt (PList xs) = Inl TypeError"
| "py_int rt (PDict kvs) = Inl TypeError"

fun py_float :: "'f runtime \<Rightarrow> 'f pyval \<Rightarrow> exn + 'f" where
  "py_float rt PNone = Inl TypeError"
| "py_float rt (PBool b) =
     (case rt_float_of_int rt (if b then 1 else 0) of
        None \<Rightarrow> Inl OverflowError | Some f \<Rightarrow> Inr f)"
| "py_float rt (PInt i) =
     (case rt_float_of_int rt i of None \<Rightarrow> Inl OverflowError | Some f \<Rightarrow> Inr f)"
| "py_float rt (PFloat f) = Inr f"
| "py_float rt (PStr s) =
     (case rt_float_of_str rt s of None \<Rightarrow> Inl ValueError | Some f \<Rightarrow> Inr f)"
| "py_float rt (PList xs) = Inl TypeError"
| "py_float rt (PDict kvs) = Inl TypeError"

definition bind_exn :: "exn + 'a \<Rightarrow> ('a \<Rightarrow> exn + 'b) \<Rightarrow> exn + 'b" where
  "bind_exn m f = (case m of Inl e \<Rightarrow> Inl e | Inr x \<Rightarrow> f x)"

text \<open>\<open>raw.get(key, d) or d\<close>\<close>

definition get_or :: "'f runtime \<Rightarrow> 'f raw_input \<Rightarrow> string \<Rightarrow> 'f pyval \<Rightarrow> 'f pyval" where
  "get_or rt raw key d =
     (case raw key of None \<Rightarrow> d | Some v \<Rightarrow> if truthy rt v then v else d)"

text \<open>Lines 37-45. Iterating over a number or a boolean raises \<open>TypeError\<close>; iterating
  over an object yields its keys.\<close>

definition iterate :: "'f pyval \<Rightarrow> exn + 'f pyval list" where
  "iterate v =
     (case v of
        PList xs \<Rightarrow> Inr xs
      | PDict kvs \<Rightarrow> Inr (map (\<lambda>kv. PStr (fst kv)) kvs)
      | PStr s \<Rightarrow> Inr (map (\<lambda>c. PStr [c]) s)
      | _ \<Rightarrow> Inl TypeError)"

definition stripped_strings :: "'f pyval list \<Rightarrow> pystr list" where
  "stripped_strings vs =
     concat (map (\<lambda>k. case k of PStr s \<Rightarrow> (if py_strip s \<noteq> [] then [py_strip s] else [])
                          | _ \<Rightarrow> []) vs)"

definition keywords_of :: "'f runtime \<Rightarrow> 'f raw_input \<Rightarrow> exn + pystr list" where
  "keywords_of rt raw =
     (let v = get_or rt raw ''keywords'' (PList []);
          v' = (case v of PStr s \<Rightarrow> PList [PStr s] | _ \<Rightarrow> v)
      in bind_exn (iterate v') (\<lambda>ks.
           let kept = stripped_strings ks in
           Inr (if kept = [] then [ascii ''iphone 17 case''] else kept)))"

text \<open>\<open>int(raw.get(key, d) or d)\<close>, lines 47, 51 and 79: no exception is caught here.\<close>

definition int_setting :: "'f runtime \<Rightarrow> 'f raw_input \<Rightarrow> string \<Rightarrow> int \<Rightarrow> exn + int" where
  "int_setting rt raw key d = py_int rt (get_or rt raw key (PInt d))"

text \<open>Lines 57-59. \<open>.upper()\<close> on a value that is not a string raises
  \<open>AttributeError\<close>.\<close>

definition countries :: "pystr list" where
  "countries = [ascii ''US'', ascii ''UK'', ascii ''DE'', ascii ''FR'', ascii ''JP'']"

definition country_of :: "'f runtime \<Rightarrow> 'f raw_input \<Rightarrow> exn + pystr" where
  "country_of rt raw =
     (case get_or rt raw ''country'' (PStr (ascii ''US'')) of
        PStr s \<Rightarrow> (let c = rt_upper rt s in Inr (if c \<in> set countries then c else ascii ''US''))
      | _ \<Rightarrow> Inl AttributeError)"

text \<open>Lines 61-74: \<open>TypeError\<close> and \<open>ValueError\<close> are caught, other exceptions are
  not.\<close>

definition min_rating_of :: "'f runtime \<Rightarrow> 'f raw_input \<Rightarrow> exn + 'f option" where
  "min_rating_of rt raw =
     (case raw ''min_rating'' of
        None \<Rightarrow> Inr None
      | Some PNone \<Rightarrow> Inr None
      | Some v \<Rightarrow>
          (case py_float rt v of
             Inr f \<Rightarrow> Inr (Some f)
           | Inl TypeError \<Rightarrow> Inr None
           | Inl ValueError \<Rightarrow> Inr None
           | Inl e \<Rightarrow> Inl e))"

definition min_reviews_of :: "'f runtime \<Rightarrow> 'f raw_input \<Rightarrow> exn + int option" where
  "min_reviews_of rt raw =
     (case raw ''min_reviews'' of
        None \<Rightarrow> Inr None
      | Some PNone \<Rightarrow> Inr None
      | Some v \<Rightarrow>
          (case py_int rt v of
             Inr mr \<Rightarrow> Inr (if mr > 0 then Some mr else None)
           | Inl TypeError \<Rightarrow> Inr None
           | Inl ValueError \<Rightarrow> Inr None
           | Inl e \<Rightarrow> Inl e))"

text \<open>\<open>bool(raw.get(key, False))\<close>\<close>

definition flag :: "'f runtime \<Rightarrow> 'f raw_input \<Rightarrow> string \<Rightarrow> bool" where
  "flag rt raw key = (case raw key of None \<Rightarrow> False | Some v \<Rightarrow> truthy rt v)"

definition normalize_input :: "'f runtime \<Rightarrow> 'f raw_input \<Rightarrow> exn + 'f amazon_search_input" where
  "normalize_input rt raw =
     bind_exn (keywords_of rt raw) (\<lambda>kws.
     bind_exn (int_setting rt raw ''max_items_per_keyword'' 50) (\<lambda>n_items.
     bind_exn (int_setting rt raw ''max_pages'' 3) (\<lambda>n_pages.
     bind_exn (country_of rt raw) (\<lambda>c.
     bind_exn (min_rating_of rt raw) (\<lambda>min_rating_val.
     bind_exn (min_reviews_of rt raw) (\<lambda>min_reviews_val.
     bind_exn (int_setting rt raw ''max_detail_items'' 5) (\<lambda>n_detail.
       Inr \<lparr>input_keywords = kws,
            max_items_per_keyword = (if n_items \<le> 0 then 50 else n_items),
            max_pages = (if n_pages \<le> 0 then 1 else if n_pages > 20 then 20 else n_pages),
            country = c,
            min_rating = min_rating_val,
            min_reviews = min_reviews_val,
            exclude_sponsored = flag rt raw ''exclude_sponsored'',
            fetch_details = flag rt raw ''fetch_details'',
            max_detail_items =
              (if n_detail \<le> 0 then 1 else if n_detail > 50 then 50 else n_detail)\<rparr>)))))))"

text \<open>Inputs whose fields have the types of the input schema: a numeric field is
  missing, null or an integer; the keywords a string or a list; the country a string; the
  two filters a number of their kind or a string.\<close>

definition int_or_absent :: "'f pyval option \<Rightarrow> bool" where
  "int_or_absent v =
     (case v of None \<Rightarrow> True | Some PNone \<Rightarrow> True | Some (PInt n) \<Rightarrow> True | Some _ \<Rightarrow> False)"

definition schema_input :: "'f raw_input \<Rightarrow> bool" where
  "schema_input raw \<longleftrightarrow>
     (case raw ''keywords'' of
        None \<Rightarrow> True | Some PNone \<Rightarrow> True | Some (PStr s) \<Rightarrow> True | Some (PList xs) \<Rightarrow> True
      | Some _ \<Rightarrow> False)
     \<and> (case raw ''country'' of
          None \<Rightarrow> True | Some PNone \<Rightarrow> True | Some (PStr s) \<Rightarrow> True | Some _ \<Rightarrow> False)
     \<and> (case raw ''min_rating'' of
          None \<Rightarrow> True | Some PNone \<Rightarrow> True | Some (PFloat f) \<Rightarrow> True | Some (PStr s) \<Rightarrow> True
        | Some _ \<Rightarrow> False)
     \<and> (case raw ''min_reviews'' of
          None \<Rightarrow> True | Some PNone \<Rightarrow> True | Some (PInt n) \<Rightarrow> True | Some (PStr s) \<Rightarrow> True
        | Some _ \<Rightarrow> False)
     \<and> int_or_absent (raw ''max_items_per_keyword'')
     \<and> int_or_absent (raw ''max_pages'')
     \<and> int_or_absent (raw ''max_detail_items'')"

lemma int_setting_plain:
  "int_or_absent (raw key) \<Longrightarrow>
     int_setting rt raw key d =
       Inr (case raw key of Some (PInt n) \<Rightarrow> if n = 0 then d else n | _ \<Rightarrow> d)"
  by (auto simp: int_or_absent_def int_setting_def get_or_def
      split: option.splits pyval.splits)

lemma keywords_of_plain:
  "(case raw ''keywords'' of
        None \<Rightarrow> True | Some PNone \<Rightarrow> True | Some (PStr s) \<Rightarrow> True | Some (PList xs) \<Rightarrow> True
      | Some _ \<Rightarrow> False) \<Longrightarrow> \<exists>ks. keywords_of rt raw = Inr ks"
  by (auto simp: keywords_of_def get_or_def iterate_def bind_exn_def Let_def
      split: option.splits pyval.splits)

lemma country_of_plain:
  "(case raw ''country'' of
      None \<Rightarrow> True | Some PNone \<Rightarrow> True | Some (PStr s) \<Rightarrow> True | Some _ \<Rightarrow> False)
     \<Longrightarrow> \<exists>c. country_of rt raw = Inr c"
  by (auto simp: country_of_def get_or_def Let_def split: option.splits pyval.splits)

lemma min_rating_of_plain:
  "(case raw ''min_rating'' of
      None \<Rightarrow> True | Some PNone \<Rightarrow> True | Some (PFloat f) \<Rightarrow> True | Some (PStr s) \<Rightarrow> True
    | Some _ \<Rightarrow> False) \<Longrightarrow> \<exists>m. min_rating_of rt raw = Inr m"
  by (auto simp: min_rating_of_def split: option.splits pyval.splits sum.splits exn.splits)

lemma min_reviews_of_plain:
  "(case raw ''min_reviews'' of
      None \<Rightarrow> True | Some PNone \<Rightarrow> True | Some (PInt n) \<Rightarrow> True | Some (PStr s) \<Rightarrow> True
    | Some _ \<Rightarrow> False) \<Longrightarrow> \<exists>m. min_reviews_of rt raw = Inr m"
  by (auto simp: min_reviews_of_def split: option.splits pyval.splits sum.splits exn.splits)

lemma normalize_input_plain:
  assumes "schema_input raw"
  shows "\<exists>p. normalize_input rt raw = Inr p
     \<and> max_items_per_keyword p =
         (case raw ''max_items_per_keyword'' of
            Some (PInt n) \<Rightarrow> if n \<le> 0 then 50 else n | _ \<Rightarrow> 50)
     \<and> max_pages p =
         (case raw ''max_pages'' of
            Some (PInt n) \<Rightarrow> if n = 0 then 3 else if n < 0 then 1 else if n > 20 then 20 else n
          | _ \<Rightarrow> 3)
     \<and> max_detail_items p =
         (case raw ''max_detail_items'' of
            Some (PInt n) \<Rightarrow> if n = 0 then 5 else if n < 0 then 1 else if n > 50 then 50 else n
          | _ \<Rightarrow> 5)"
proof -
  from assms obtain ks where ks: "keywords_of rt raw = Inr ks"
    using keywords_of_plain[of raw rt] by (auto simp: schema_input_def)
  from assms obtain c where c: "country_of rt raw = Inr c"
    using country_of_plain[of raw rt] by (auto simp: schema_input_def)
  from assms obtain mr where mr: "min_rating_of rt raw = Inr mr"
    using min_rating_of_plain[of raw rt] by (auto simp: schema_input_def)
  from assms obtain mv where mv: "min_reviews_of rt raw = Inr mv"
    using min_reviews_of_plain[of raw rt] by (auto simp: schema_input_def)
  from assms have i:
    "int_or_absent (raw ''max_items_per_keyword'')" "int_or_absent (raw ''max_pages'')"
    "int_or_absent (raw ''max_detail_items'')"
    by (auto simp: schema_input_def)
  note s = int_setting_plain[of raw "''max_items_per_keyword''" rt 50, OF i(1)]
    int_setting_plain[of raw "''max_pages''" rt 3, OF i(2)]
    int_setting_plain[of raw "''max_detail_items''" rt 5, OF i(3)]
  let ?n1 = "case raw ''max_items_per_keyword'' of
               Some (PInt n) \<Rightarrow> if n = 0 then 50 else n | _ \<Rightarrow> (50::int)"
  let ?n2 = "case raw ''max_pages'' of
               Some (PInt n) \<Rightarrow> if n = 0 then 3 else n | _ \<Rightarrow> (3::int)"
  let ?n3 = "case raw ''max_detail_items'' of
               Some (PInt n) \<Rightarrow> if n = 0 then 5 else n | _ \<Rightarrow> (5::int)"
  let ?p = "\<lparr>input_keywords = ks,
            max_items_per_keyword = (if ?n1 \<le> 0 then 50 else ?n1),
            max_pages = (if ?n2 \<le> 0 then 1 else if ?n2 > 20 then 20 else ?n2),
            country = c, min_rating = mr, min_reviews = mv,
            exclude_sponsored = flag rt raw ''exclude_sponsored'',
            fetch_details = flag rt raw ''fetch_details'',
            max_detail_items = (if ?n3 \<le> 0 then 1 else if ?n3 > 50 then 50 else ?n3)\<rparr>"
  have n: "normalize_input rt raw = Inr ?p"
    unfolding normalize_input_def by (simp only: ks c mr mv s bind_exn_def sum.case)
  have 1: "(if ?n1 \<le> 0 then 50 else ?n1) =
         (case raw ''max_items_per_keyword'' of
            Some (PInt n) \<Rightarrow> if n \<le> 0 then 50 else n | _ \<Rightarrow> 50)"
    by (cases "raw ''max_items_per_keyword''") (auto split: pyval.splits)
  have 2: "(if ?n2 \<le> 0 then 1 else if ?n2 > 20 then 20 else ?n2) =
         (case raw ''max_pages'' of
            Some (PInt n) \<Rightarrow> if n = 0 then 3 else if n < 0 then 1 else if n > 20 then 20 else n
          | _ \<Rightarrow> 3)"
    by (cases "raw ''max_pages''") (auto split: pyval.splits)
  have 3: "(if ?n3 \<le> 0 then 1 else if ?n3 > 50 then 50 else ?n3) =
         (case raw ''max_detail_items'' of
            Some (PInt n) \<Rightarrow> if n = 0 then 5 else if n < 0 then 1 else if n > 50 then 50 else n
          | _ \<Rightarrow> 5)"
    by (cases "raw ''max_detail_items''") (auto split: pyval.splits)
  have "max_items_per_keyword ?p = (if ?n1 \<le> 0 then 50 else ?n1)"
    "max_pages ?p = (if ?n2 \<le> 0 then 1 else if ?n2 > 20 then 20 else ?n2)"
    "max_detail_items ?p = (if ?n3 \<le> 0 then 1 else if ?n3 > 50 then 50 else ?n3)"
    by (simp_all only: amazon_search_input.simps)
  with n 1 2 3 show ?thesis by (intro exI[of _ ?p]) (simp only: simp_thms)
qed


text \<open>
  C1 (as amended). For every raw input whose fields have the types of the input schema,
  normalization returns a value and does not raise. A numeric field that is missing, null
  or zero takes its default: 50, 3 and 5. A negative \<open>max_items_per_keyword\<close> becomes
  50; a negative \<open>max_pages\<close> or \<open>max_detail_items\<close> is clamped to 1, and a value
  above 20, respectively 50, to that bound. Nothing is said about a numeric field that
  \<open>int\<close> cannot read.
\<close>

theorem normalize_input_defaults:
  assumes "schema_input raw"
  shows "\<exists>p. normalize_input rt raw = Inr p
     \<and> max_items_per_keyword p =
         (case raw ''max_items_per_keyword'' of
            Some (PInt n) \<Rightarrow> if n \<le> 0 then 50 else n | _ \<Rightarrow> 50)
     \<and> max_pages p =
         (case raw ''max_pages'' of
            Some (PInt n) \<Rightarrow> if n = 0 then 3 else if n < 0 then 1 else if n > 20 then 20 else n
          | _ \<Rightarrow> 3)
     \<and> max_detail_items p =
         (case raw ''max_detail_items'' of
            Some (PInt n) \<Rightarrow> if n = 0 then 5 else if n < 0 then 1 else if n > 50 then 50 else n
          | _ \<Rightarrow> 5)"
  using normalize_input_plain[OF assms] .

lemma normalize_input_ranges:
  assumes "normalize_input rt raw = Inr p"
  shows "1 \<le> max_items_per_keyword p \<and> 1 \<le> max_pages p \<and> max_pages p \<le> 20 \<and>
         1 \<le> max_detail_items p \<and> max_detail_items p \<le> 50"
  using assms unfolding normalize_input_def bind_exn_def
  by (auto split: sum.splits)

definition example_raw :: "rat raw_input" where
  "example_raw = Map.empty(''max_pages'' \<mapsto> PInt (- 1), ''max_detail_items'' \<mapsto> PInt 0)"

theorem normalize_input_defaults_witness:
  "schema_input example_raw \<and>
   (\<exists>p. normalize_input ascii_rt example_raw = Inr p \<and> max_items_per_keyword p = 50 \<and>
        max_pages p = 1 \<and> max_detail_items p = 5)"
proof -
  have s: "schema_input example_raw"
    by (simp add: schema_input_def example_raw_def int_or_absent_def)
  from normalize_input_defaults[OF s, of ascii_rt] s show ?thesis
    by (simp add: example_raw_def)
qed

text \<open>
  C1 as stated fails: \<open>max_pages = -1\<close> gives 1, not 3; \<open>max_detail_items = -3\<close> gives
  1, not 5; and the string \<open>many\<close> for \<open>max_items_per_keyword\<close> makes normalization
  raise \<open>ValueError\<close>.
\<close>

definition negative_pages_raw :: "rat raw_input" where
  "negative_pages_raw = Map.empty(''max_pages'' \<mapsto> PInt (- 1))"

definition negative_detail_raw :: "rat raw_input" where
  "negative_detail_raw = Map.empty(''max_detail_items'' \<mapsto> PInt (- 3))"

definition unparsable_items_raw :: "rat raw_input" where
  "unparsable_items_raw = Map.empty(''max_items_per_keyword'' \<mapsto> PStr (ascii ''many''))"

lemma unparsable_items_raises: "normalize_input ascii_rt unparsable_items_raw = Inl ValueError"
proof -
  obtain ks where ks: "keywords_of ascii_rt unparsable_items_raw = Inr ks"
    using keywords_of_plain[of unparsable_items_raw ascii_rt]
    by (auto simp: unparsable_items_raw_def)
  have "int_setting ascii_rt unparsable_items_raw ''max_items_per_keyword'' 50 = Inl ValueError"
    by (simp add: int_setting_def get_or_def unparsable_items_raw_def ascii_def ascii_rt_def
        read_int_def py_strip_def isspace_def read_nat_def digit_val_def)
  then show ?thesis
    unfolding normalize_input_def by (simp add: ks bind_exn_def)
qed

theorem normalize_input_counterexample:
  "map_sum id max_pages (normalize_input ascii_rt negative_pages_raw) = Inr 1
   \<and> map_sum id max_detail_items (normalize_input ascii_rt negative_detail_raw) = Inr 1
   \<and> normalize_input ascii_rt unparsable_items_raw = Inl ValueError"
proof -
  have s1: "schema_input negative_pages_raw"
    by (simp add: schema_input_def negative_pages_raw_def int_or_absent_def)
  have s2: "schema_input negative_detail_raw"
    by (simp add: schema_input_def negative_detail_raw_def int_or_absent_def)
  from normalize_input_plain[OF s1, of ascii_rt]
  have 1: "map_sum id max_pages (normalize_input ascii_rt negative_pages_raw) = Inr 1"
    by (auto simp: negative_pages_raw_def)
  from normalize_input_plain[OF s2, of ascii_rt]
  have 2: "map_sum id max_detail_items (normalize_input ascii_rt negative_detail_raw) = Inr 1"
    by (auto simp: negative_detail_raw_def)
  show ?thesis using 1 2 unparsable_items_raises by simp
qed

section \<open>The keyword crawl\<close>

text \<open>
  The browser is outside the program. It is modelled by what it answers: whether the
  \<open>n\<close>-th call of \<open>context.new_page()\<close> succeeds, what the page opened by that call
  shows for a URL, and whether the \<open>n\<close>-th \<open>Actor.push_data\<close> succeeds. A search page
  answers each navigation attempt (success, \<open>PlaywrightTimeoutError\<close>, another
  exception; the waits of an attempt belong to it), and gives its content, its result
  cards and the matches of the next-page selector; \<open>None\<close> is a raise. The random
  length of the back-off sleep has no effect on the state and is left out.
\<close>

datatype nav_result = Nav_ok | Nav_timeout | Nav_error

record search_page =
  goto_result :: "nat \<Rightarrow> nav_result"
  content :: "pystr option"
  result_cards :: "card list option"
  next_button :: "elem list option"
  close_raises :: bool

record detail_page =
  detail_goto_ok :: bool
  breadcrumbs :: "elem list option"
  bullets :: "elem list option"

record browser =
  new_page_ok :: "nat \<Rightarrow> bool"
  search_page_at :: "nat \<Rightarrow> pystr \<Rightarrow> search_page"
  detail_page_at :: "nat \<Rightarrow> pystr \<Rightarrow> detail_page"
  push_ok :: "nat \<Rightarrow> bool"

text \<open>What the crawl does to the outside is recorded as a trace of events, in order; the
  counters are the numbers of \<open>new_page\<close> and \<open>push_data\<close> calls made so far.\<close>

datatype 'f event =
    Started pystr
  | Opened
  | Navigated pystr
  | Detail_navigated pystr
  | Pushed pystr pystr int "'f product"
  | Closed

record 'f io =
  pages :: nat
  pushes :: nat
  trace :: "'f event list"

definition emit :: "'f event \<Rightarrow> 'f io \<Rightarrow> 'f io" where
  "emit e io = io\<lparr>trace := trace io @ [e]\<rparr>"

text \<open>The three variables of the loop of \<open>_scrape_keyword\<close>.\<close>

record crawl_state =
  total_collected :: int
  page_index :: int
  search_url :: pystr

text \<open>Lines 348-368: up to three attempts; a timeout of the last attempt and any other
  exception propagate (result \<open>False\<close>).\<close>

definition max_nav_retries :: nat where
  "max_nav_retries = 3"

fun nav_attempts :: "search_page \<Rightarrow> pystr \<Rightarrow> nat \<Rightarrow> nat \<Rightarrow> 'f io \<Rightarrow> bool \<times> 'f io" where
  "nav_attempts pg url attempt 0 io = (True, io)"
| "nav_attempts pg url attempt (Suc k) io =
     (let io' = emit (Navigated url) io in
      case goto_result pg attempt of
        Nav_ok \<Rightarrow> (True, io')
      | Nav_error \<Rightarrow> (False, io')
      | Nav_timeout \<Rightarrow>
          if attempt = max_nav_retries then (False, io')
          else nav_attempts pg url (Suc attempt) k io')"

definition navigate :: "search_page \<Rightarrow> pystr \<Rightarrow> 'f io \<Rightarrow> bool \<times> 'f io" where
  "navigate pg url io = nav_attempts pg url 1 max_nav_retries io"

text \<open>Lines 371-378.\<close>

definition captcha_markers :: "pystr list" where
  "captcha_markers =
     [ascii ''api-services-support@amazon.com'',
      ascii ''to discuss automated access to amazon data'',
      ascii ''/captcha/'',
      ascii ''enter the characters you see below'']"

definition looks_blocked :: "'f runtime \<Rightarrow> pystr \<Rightarrow> bool" where
  "looks_blocked rt html = list_ex (\<lambda>marker. py_in marker (rt_lower rt html)) captcha_markers"

text \<open>Lines 413-460: the enrichment of one item, and the loop over the items with its
  count of completed fetches. A failure keeps what was attached before it and does not
  count; errors of closing the detail page are swallowed.\<close>

definition clean_texts :: "elem list \<Rightarrow> pystr list" where
  "clean_texts els =
     filter (\<lambda>t. t \<noteq> []) (map (\<lambda>e. py_strip (or_empty (text_content e))) els)"

definition fetch_detail :: "browser \<Rightarrow> 'f product \<Rightarrow> 'f io \<Rightarrow> 'f product \<times> bool \<times> 'f io" where
  "fetch_detail w item io =
     (let n = pages io; io1 = io\<lparr>pages := Suc n\<rparr> in
      if \<not> new_page_ok w n then (item, False, io1)
      else
        let dp = detail_page_at w n (productUrl item);
            io2 = emit (Detail_navigated (productUrl item)) io1
        in if \<not> detail_goto_ok dp then (item, False, io2)
           else (case breadcrumbs dp of
                   None \<Rightarrow> (item, False, io2)
                 | Some bc \<Rightarrow>
                     let category_path = clean_texts bc;
                         item1 = (if category_path \<noteq> []
                                  then item\<lparr>categoryPath := Some category_path\<rparr> else item)
                     in (case bullets dp of
                           None \<Rightarrow> (item1, False, io2)
                         | Some bl \<Rightarrow>
                             let feature_bullets = clean_texts bl;
                                 item2 = (if feature_bullets \<noteq> []
                                          then item1\<lparr>featureBullets := Some feature_bullets\<rparr>
                                          else item1)
                             in (item2, True, io2))))"

fun enrich :: "browser \<Rightarrow> int \<Rightarrow> int \<Rightarrow> 'f product list \<Rightarrow> 'f io \<Rightarrow> 'f product list \<times> 'f io" where
  "enrich w max_detail detail_count [] io = ([], io)"
| "enrich w max_detail detail_count (item # items) io =
     (if detail_count \<ge> max_detail then (item # items, io)
      else if productUrl item = [] then
        (case enrich w max_detail detail_count items io of
           (rest, io') \<Rightarrow> (item # rest, io'))
      else
        (case fetch_detail w item io of
           (item', fetched, io1) \<Rightarrow>
             (case enrich w max_detail (if fetched then detail_count + 1 else detail_count)
                     items io1 of
                (rest, io') \<Rightarrow> (item' # rest, io'))))"

text \<open>Lines 462-470.\<close>

fun push_all ::
  "browser \<Rightarrow> pystr \<Rightarrow> pystr \<Rightarrow> int \<Rightarrow> 'f product list \<Rightarrow> 'f io \<Rightarrow> bool \<times> 'f io"
where
  "push_all w keyword ctry page_idx [] io = (True, io)"
| "push_all w keyword ctry page_idx (item # items) io =
     (let n = pushes io; io1 = io\<lparr>pushes := Suc n\<rparr> in
      if \<not> push_ok w n then (False, io1)
      else push_all w keyword ctry page_idx items
             (emit (Pushed keyword ctry page_idx item) io1))"


datatype step = Continue | Break

text \<open>Lines 478-495: stop at the item ceiling, or follow the next-page control.\<close>

definition paginate ::
  "'f runtime \<Rightarrow> 'f amazon_search_input \<Rightarrow> search_page \<Rightarrow> crawl_state \<Rightarrow> 'f io
     \<Rightarrow> step \<times> crawl_state \<times> 'f io"
where
  "paginate rt p pg cs1 io =
     (if total_collected cs1 \<ge> max_items_per_keyword p then (Break, cs1, io)
      else
        (case next_button pg of
           None \<Rightarrow> (Break, cs1, io)
         | Some [] \<Rightarrow> (Break, cs1, io)
         | Some (btn # _) \<Rightarrow>
             let next_href = or_empty (href btn) in
             if next_href = [] then (Break, cs1, io)
             else
               (Continue,
                cs1\<lparr>search_url :=
                       (if starts_with_slash next_href
                        then base_url_of rt (country p) @ next_href else next_href),
                     page_index := page_index cs1 + 1\<rparr>,
                io)))"

text \<open>Lines 413-476: optional enrichment with a count that starts at 0 for this page,
  emission of every item, the update of \<open>total_collected\<close>; then the pagination.\<close>

definition emit_items ::
  "'f runtime \<Rightarrow> browser \<Rightarrow> 'f amazon_search_input \<Rightarrow> pystr \<Rightarrow> search_page \<Rightarrow> crawl_state
     \<Rightarrow> 'f product list \<Rightarrow> 'f io \<Rightarrow> step \<times> crawl_state \<times> 'f io"
where
  "emit_items rt w p keyword pg cs items io1 =
     (case (if fetch_details p \<and> max_detail_items p > 0
            then enrich w (max_detail_items p) 0 items io1 else (items, io1)) of
        (items', io2) \<Rightarrow>
          (case push_all w keyword (country p) (page_index cs) items' io2 of
             (False, io3) \<Rightarrow> (Break, cs, io3)
           | (True, io3) \<Rightarrow>
               paginate rt p pg
                 (cs\<lparr>total_collected := total_collected cs + int (length items')\<rparr>) io3))"

text \<open>Lines 391-404: the cards are cut to the remaining budget, then parsed.\<close>

definition page_items ::
  "'f runtime \<Rightarrow> 'f amazon_search_input \<Rightarrow> int \<Rightarrow> card list \<Rightarrow> 'f product list"
where
  "page_items rt p remaining cards =
     extract_product_cards rt
       (if int (length cards) > remaining then take (nat remaining) cards else cards)
       (base_url_of rt (country p)) (min_rating p) (min_reviews p) (exclude_sponsored p)"

text \<open>The body of the \<open>try\<close> block of lines 346-495 for one opened page. An exception
  anywhere in it is caught at line 496 and breaks the loop, like the \<open>break\<close> statements.\<close>

definition page_body ::
  "'f runtime \<Rightarrow> browser \<Rightarrow> 'f amazon_search_input \<Rightarrow> pystr \<Rightarrow> search_page \<Rightarrow> crawl_state
     \<Rightarrow> 'f io \<Rightarrow> step \<times> crawl_state \<times> 'f io"
where
  "page_body rt w p keyword pg cs io =
     (case navigate pg (search_url cs) io of
        (False, io1) \<Rightarrow> (Break, cs, io1)
      | (True, io1) \<Rightarrow>
          (case content pg of
             None \<Rightarrow> (Break, cs, io1)
           | Some html \<Rightarrow>
               if looks_blocked rt html then (Break, cs, io1)
               else
                 (case result_cards pg of
                    None \<Rightarrow> (Break, cs, io1)
                  | Some cards \<Rightarrow>
                      if cards = [] then (Break, cs, io1)
                      else
                        let remaining = max_items_per_keyword p - total_collected cs in
                        if remaining \<le> 0 then (Break, cs, io1)
                        else
                          let items = page_items rt p remaining cards in
                          if items = [] then (Break, cs, io1)
                          else emit_items rt w p keyword pg cs items io1)))"

datatype 'f turn =
    Next crawl_state "'f io"
  | Stop crawl_state "'f io"
  | Raise crawl_state "'f io"

text \<open>One turn of the \<open>while\<close> loop: \<open>context.new_page()\<close> of line 345, outside the
  \<open>try\<close>; the body; \<open>page.close()\<close> in the \<open>finally\<close> of line 500. A raise of either of
  the two leaves \<open>_scrape_keyword\<close>.\<close>

definition page_iteration ::
  "'f runtime \<Rightarrow> browser \<Rightarrow> 'f amazon_search_input \<Rightarrow> pystr \<Rightarrow> crawl_state \<Rightarrow> 'f io \<Rightarrow> 'f turn"
where
  "page_iteration rt w p keyword cs io =
     (let n = pages io; io0 = io\<lparr>pages := Suc n\<rparr> in
      if \<not> new_page_ok w n then Raise cs io0
      else
        let pg = search_page_at w n (search_url cs) in
        (case page_body rt w p keyword pg cs (emit Opened io0) of
           (st, cs', io1) \<Rightarrow>
             let io2 = emit Closed io1 in
             if close_raises pg then Raise cs' io2
             else (case st of Continue \<Rightarrow> Next cs' io2 | Break \<Rightarrow> Stop cs' io2)))"

text \<open>Line 344, and the loop.\<close>

definition loop_condition :: "'f amazon_search_input \<Rightarrow> crawl_state \<Rightarrow> bool" where
  "loop_condition p cs \<longleftrightarrow>
     total_collected cs < max_items_per_keyword p \<and> page_index cs \<le> max_pages p"

lemma paginate_step:
  "paginate rt p pg cs1 io = (st, cs', io') \<Longrightarrow>
     io' = io \<and> total_collected cs' = total_collected cs1 \<and>
     (st = Continue \<longrightarrow> page_index cs' = page_index cs1 + 1) \<and>
     (st = Break \<longrightarrow> cs' = cs1)"
  unfolding paginate_def
  by (auto simp: Let_def split: option.splits list.splits if_splits)

lemma emit_items_Continue:
  "emit_items rt w p keyword pg cs items io = (Continue, cs', io') \<Longrightarrow>
     page_index cs' = page_index cs + 1"
  unfolding emit_items_def
  by (auto split: prod.splits bool.splits dest!: paginate_step)

lemma page_body_Continue:
  "page_body rt w p keyword pg cs io = (Continue, cs', io') \<Longrightarrow>
     page_index cs' = page_index cs + 1"
  unfolding page_body_def
  by (auto simp: Let_def split: prod.splits bool.splits option.splits if_splits
      dest: emit_items_Continue)

lemma page_iteration_Next:
  "page_iteration rt w p keyword cs io = Next cs' io' \<Longrightarrow> page_index cs' = page_index cs + 1"
  unfolding page_iteration_def
  by (auto simp: Let_def split: prod.splits if_splits step.splits dest: page_body_Continue)

datatype status = Returned | Raised

function scrape_loop ::
  "'f runtime \<Rightarrow> browser \<Rightarrow> 'f amazon_search_input \<Rightarrow> pystr \<Rightarrow> crawl_state \<Rightarrow> 'f io
     \<Rightarrow> status \<times> crawl_state \<times> 'f io"
where
  "scrape_loop rt w p keyword cs io =
     (if loop_condition p cs then
        (case page_iteration rt w p keyword cs io of
           Next cs' io' \<Rightarrow> scrape_loop rt w p keyword cs' io'
         | Stop cs' io' \<Rightarrow> (Returned, cs', io')
         | Raise cs' io' \<Rightarrow> (Raised, cs', io'))
      else (Returned, cs, io))"
  by pat_completeness auto
termination
  by (relation "measure (\<lambda>(rt, w, p, keyword, cs, io). nat (max_pages p + 1 - page_index cs))")
     (auto simp: loop_condition_def dest: page_iteration_Next)

text \<open>The record extracted from \<open>linked_card\<close>.\<close>

definition linked_item :: "pystr option \<Rightarrow> pystr \<Rightarrow> pystr \<Rightarrow> 'f product" where
  "linked_item t h base =
     \<lparr>asin = ascii ''B0EXAMPLE2'', title = py_strip (or_empty t),
      productUrl = product_url_of base h, priceText = [], price = None,
      originalPriceText = [], rating = None, reviewsCount = None, isPrime = False,
      brand = [], badges = [], isSponsored = False, imageUrl = [], currency = [],
      categoryPath = None, featureBullets = None\<rparr>"

lemma linked_card_fields:
  "card_fields rt (linked_card t h) None None False a tt u =
     Some (Some \<lparr>asin = a, title = tt,
      productUrl = u, priceText = [], price = None,
      originalPriceText = [], rating = None, reviewsCount = None, isPrime = False,
      brand = [], badges = [], isSponsored = False, imageUrl = [], currency = [],
      categoryPath = None, featureBullets = None\<rparr>)"
  by (simp add: card_fields_def linked_card_def first_text_def parse_currency_def
      parse_rating_def parse_reviews_def clean_brand_def sponsored_flag_def filtered_out_def
      or_empty_def py_strip_def)

lemma linked_card_parse:
  assumes "h \<noteq> []"
  shows "parse_single_card rt (linked_card t h) base None None False = Some (linked_item t h base)"
proof -
  have a: "data_asin (linked_card t h) = Some (Some (ascii ''B0EXAMPLE2''))"
    by (simp add: linked_card_def)
  have ne: "or_empty (Some (ascii ''B0EXAMPLE2'')) = ascii ''B0EXAMPLE2''"
    "ascii ''B0EXAMPLE2'' \<noteq> []" "or_empty (Some h) = h"
    by (simp_all add: or_empty_def ascii_def)
  show ?thesis
    using assms
    by (simp add: parse_single_card_def card_body_def a ne linked_card_title linked_card_fields
        linked_item_def)
qed

text \<open>Lines 332-342, \<open>_scrape_keyword\<close> as a whole, and the loop over the keywords of
  \<open>main\<close> (lines 546-558), which has no \<open>except\<close>: a raise of one keyword's crawl ends
  the loop. \<open>quote_plus\<close> of line 337 is called outside every \<open>try\<close>, before the start
  of the crawl is logged and before the two counters exist: when it raises, the crawl raises
  with no crawl state.\<close>

definition initial_state ::
  "'f runtime \<Rightarrow> 'f amazon_search_input \<Rightarrow> pystr \<Rightarrow> crawl_state option"
where
  "initial_state rt p keyword =
     (case rt_quote_plus rt keyword of
        None \<Rightarrow> None
      | Some quoted \<Rightarrow>
          Some \<lparr>total_collected = 0, page_index = 1,
                search_url = base_url_of rt (country p) @ ascii ''/s?k='' @ quoted\<rparr>)"

definition scrape_keyword ::
  "'f runtime \<Rightarrow> browser \<Rightarrow> 'f amazon_search_input \<Rightarrow> pystr \<Rightarrow> 'f io
     \<Rightarrow> status \<times> crawl_state option \<times> 'f io"
where
  "scrape_keyword rt w p keyword io =
     (case initial_state rt p keyword of
        None \<Rightarrow> (Raised, None, io)
      | Some cs \<Rightarrow>
          (case scrape_loop rt w p keyword cs (emit (Started keyword) io) of
             (st, cs', io') \<Rightarrow> (st, Some cs', io')))"


subsection \<open>What a crawl adds to the trace\<close>

definition is_navigated :: "'f event \<Rightarrow> bool" where
  "is_navigated e = (case e of Navigated u \<Rightarrow> True | _ \<Rightarrow> False)"

definition is_pushed :: "'f event \<Rightarrow> bool" where
  "is_pushed e = (case e of Pushed k c i r \<Rightarrow> True | _ \<Rightarrow> False)"

definition is_detail :: "'f event \<Rightarrow> bool" where
  "is_detail e = (case e of Detail_navigated u \<Rightarrow> True | _ \<Rightarrow> False)"

definition is_started :: "'f event \<Rightarrow> bool" where
  "is_started e = (case e of Started k \<Rightarrow> True | _ \<Rightarrow> False)"

lemma nav_attempts_trace:
  "nav_attempts pg url a k io = (b, io') \<Longrightarrow>
     \<exists>n\<le>k. trace io' = trace io @ replicate n (Navigated url) \<and> (b \<or> 0 < n) \<and>
            pages io' = pages io \<and> pushes io' = pushes io"
proof (induction k arbitrary: a io)
  case 0
  then show ?case by auto
next
  case (Suc k)
  let ?io = "emit (Navigated url) io"
  show ?case
  proof (cases "goto_result pg a = Nav_timeout \<and> a \<noteq> max_nav_retries")
    case True
    with Suc.prems have "nav_attempts pg url (Suc a) k ?io = (b, io')" by (simp add: Let_def)
    from Suc.IH[OF this] obtain n where
      n: "n \<le> k" "trace io' = trace ?io @ replicate n (Navigated url)"
         "pages io' = pages ?io" "pushes io' = pushes ?io" by blast
    have "trace io' = trace io @ replicate (Suc n) (Navigated url)"
      using n(2) by (simp add: emit_def replicate_app_Cons_same)
    with n show ?thesis by (intro exI[of _ "Suc n"]) (simp add: emit_def)
  next
    case False
    with Suc.prems have "io' = ?io"
      by (cases "goto_result pg a") (auto simp: Let_def split: if_splits)
    then show ?thesis by (intro exI[of _ "Suc 0"]) (simp add: emit_def)
  qed
qed

lemma navigate_trace:
  "navigate pg url io = (b, io') \<Longrightarrow>
     \<exists>n\<le>3. trace io' = trace io @ replicate n (Navigated url) \<and>
            pages io' = pages io \<and> pushes io' = pushes io"
  using nav_attempts_trace[of pg url 1 max_nav_retries io b io']
  by (auto simp: navigate_def max_nav_retries_def)

lemma fetch_detail_trace:
  "fetch_detail w item io = (item', d, io') \<Longrightarrow>
     \<exists>es. trace io' = trace io @ es \<and> list_all is_detail es \<and> pushes io' = pushes io"
  unfolding fetch_detail_def
  by (auto simp: Let_def emit_def is_detail_def split: if_splits option.splits)

lemma enrich_trace:
  "enrich w m c items io = (items', io') \<Longrightarrow>
     \<exists>es. trace io' = trace io @ es \<and> list_all is_detail es \<and> pushes io' = pushes io \<and>
          length items' = length items"
proof (induction items arbitrary: c io items' io')
  case Nil
  then show ?case by auto
next
  case (Cons item items)
  show ?case
  proof (cases "c \<ge> m")
    case True
    with Cons.prems show ?thesis by auto
  next
    case nm: False
    show ?thesis
    proof (cases "productUrl item = []")
      case True
      with Cons.prems nm obtain rest where
        r: "enrich w m c items io = (rest, io')" "items' = item # rest"
        by (auto split: prod.splits)
      from Cons.IH[OF r(1)] r(2) show ?thesis by auto
    next
      case False
      obtain it d io1 where f: "fetch_detail w item io = (it, d, io1)"
        by (cases "fetch_detail w item io") auto
      with Cons.prems nm False obtain rest where
        r: "enrich w m (if d then c + 1 else c) items io1 = (rest, io')" "items' = it # rest"
        by (auto split: prod.splits)
      from fetch_detail_trace[OF f] obtain es1 where
        e1: "trace io1 = trace io @ es1" "list_all is_detail es1" "pushes io1 = pushes io"
        by blast
      from Cons.IH[OF r(1)] obtain es2 where
        e2: "trace io' = trace io1 @ es2" "list_all is_detail es2" "pushes io' = pushes io1"
          "length rest = length items"
        by blast
      show ?thesis using e1 e2 r(2) by (intro exI[of _ "es1 @ es2"]) simp
    qed
  qed
qed

lemma push_all_trace:
  "push_all w k c i items io = (b, io') \<Longrightarrow>
     \<exists>n\<le>length items. trace io' = trace io @ map (Pushed k c i) (take n items) \<and>
        (b \<longrightarrow> n = length items)"
proof (induction items arbitrary: io)
  case Nil
  then show ?case by auto
next
  case (Cons item items)
  show ?case
  proof (cases "push_ok w (pushes io)")
    case False
    with Cons.prems show ?thesis by (intro exI[of _ 0]) (auto simp: Let_def)
  next
    case True
    let ?io = "emit (Pushed k c i item) (io\<lparr>pushes := Suc (pushes io)\<rparr>)"
    from Cons.prems True have "push_all w k c i items ?io = (b, io')" by (simp add: Let_def)
    from Cons.IH[OF this] obtain n where
      n: "n \<le> length items" "trace io' = trace ?io @ map (Pushed k c i) (take n items)"
         "b \<longrightarrow> n = length items" by blast
    show ?thesis using n by (intro exI[of _ "Suc n"]) (simp add: emit_def)
  qed
qed

text \<open>The events the body of the \<open>try\<close> block can add.\<close>

definition body_event :: "'f event \<Rightarrow> bool" where
  "body_event e \<longleftrightarrow> is_navigated e \<or> is_detail e \<or> is_pushed e"

lemma page_items_length:
  "0 < remaining \<Longrightarrow> int (length (page_items rt p remaining cards)) \<le> remaining"
proof -
  let ?cs = "if int (length cards) > remaining then take (nat remaining) cards else cards"
  assume "0 < remaining"
  then have "int (length ?cs) \<le> remaining" by auto
  moreover have "length (page_items rt p remaining cards) \<le> length ?cs"
    unfolding page_items_def by (rule extract_product_cards_length)
  ultimately show ?thesis by linarith
qed

lemma emit_items_effect:
  assumes "emit_items rt w p keyword pg cs items io = (st, cs', io')"
  shows "\<exists>es. trace io' = trace io @ es \<and> list_all body_event es \<and>
     \<not> list_ex is_navigated es \<and>
     length (filter is_pushed es) \<le> length items \<and>
     (\<forall>k c i r. Pushed k c i r \<in> set es \<longrightarrow> k = keyword \<and> i = page_index cs) \<and>
     (total_collected cs' = total_collected cs \<or>
      total_collected cs' = total_collected cs + int (length items)) \<and>
     (st = Continue \<longrightarrow> page_index cs' = page_index cs + 1) \<and>
     (st = Break \<longrightarrow> page_index cs' = page_index cs) \<and>
     (st = Continue \<longrightarrow>
        int (length (filter is_pushed es)) \<le> total_collected cs' - total_collected cs)"
proof -
  obtain items' io2 where
    e: "(if fetch_details p \<and> max_detail_items p > 0
         then enrich w (max_detail_items p) 0 items io else (items, io)) = (items', io2)"
    by (cases "if fetch_details p \<and> max_detail_items p > 0
         then enrich w (max_detail_items p) 0 items io else (items, io)") auto
  have "\<exists>es1. trace io2 = trace io @ es1 \<and> list_all is_detail es1 \<and>
          length items' = length items"
  proof (cases "fetch_details p \<and> max_detail_items p > 0")
    case True
    with e have "enrich w (max_detail_items p) 0 items io = (items', io2)" by simp
    from enrich_trace[OF this] show ?thesis by blast
  next
    case False
    with e show ?thesis by auto
  qed
  then obtain es1 where e1: "trace io2 = trace io @ es1" "list_all is_detail es1"
    "length items' = length items" by blast
  obtain b io3 where pa: "push_all w keyword (country p) (page_index cs) items' io2 = (b, io3)"
    by (cases "push_all w keyword (country p) (page_index cs) items' io2") auto
  from push_all_trace[OF pa] obtain n where
    n: "n \<le> length items'"
       "trace io3 = trace io2 @ map (Pushed keyword (country p) (page_index cs)) (take n items')"
       "b \<longrightarrow> n = length items'"
    by blast
  let ?es2 = "map (Pushed keyword (country p) (page_index cs)) (take n items')"
  have p2: "list_all is_pushed ?es2" by (simp add: list_all_iff is_pushed_def)
  have d1: "filter is_pushed es1 = []" "\<not> list_ex is_navigated es1"
    using e1(2) by (auto simp: list_all_iff list_ex_iff is_detail_def is_pushed_def
        is_navigated_def filter_empty_conv split: event.splits)
  have d2: "\<not> list_ex is_navigated ?es2"
    by (auto simp: list_ex_iff is_navigated_def)
  define es where "es = es1 @ ?es2"
  have tr: "trace io3 = trace io @ es" using e1(1) n(2) by (simp add: es_def)
  have be: "list_all body_event es"
    using e1(2) p2 by (auto simp: list_all_iff body_event_def es_def)
  have "length (filter is_pushed ?es2) \<le> length ?es2" by (rule length_filter_le)
  then have "length (filter is_pushed ?es2) \<le> length items" using n(1) e1(3) by simp
  then have cnt: "length (filter is_pushed es) \<le> length items"
    using d1(1) by (simp add: es_def)
  have who: "\<forall>k c i r. Pushed k c i r \<in> set es \<longrightarrow> k = keyword \<and> i = page_index cs"
    using e1(2) by (auto simp: list_all_iff is_detail_def es_def)
  have nav: "\<not> list_ex is_navigated es" using d1(2) d2 by (auto simp: list_ex_iff es_def)
  have fin: "(total_collected cs' = total_collected cs \<or>
      total_collected cs' = total_collected cs + int (length items)) \<and>
    (st = Continue \<longrightarrow> page_index cs' = page_index cs + 1) \<and>
    (st = Break \<longrightarrow> page_index cs' = page_index cs) \<and> io' = io3 \<and>
    (st = Continue \<longrightarrow>
        int (length (filter is_pushed es)) \<le> total_collected cs' - total_collected cs)"
  proof (cases b)
    case False
    with assms e pa have "st = Break" "cs' = cs" "io' = io3"
      by (auto simp: emit_items_def)
    then show ?thesis by simp
  next
    case True
    with assms e pa have pg: "paginate rt p pg
        (cs\<lparr>total_collected := total_collected cs + int (length items')\<rparr>) io3 = (st, cs', io')"
      by (auto simp: emit_items_def)
    have "filter is_pushed ?es2 = ?es2" using p2 by (simp add: list_all_iff)
    then have "length (filter is_pushed es) = length items'"
      using d1(1) n(3) True by (simp add: es_def)
    with paginate_step[OF pg] e1(3) show ?thesis by auto
  qed
  have "trace io' = trace io @ es" using tr fin by simp
  with be nav cnt who fin show ?thesis by blast
qed


lemma page_body_cases:
  assumes "navigate pg (search_url cs) io = (b, io1)"
  shows "page_body rt w p keyword pg cs io = (Break, cs, io1) \<or>
         (\<exists>cards. 0 < max_items_per_keyword p - total_collected cs \<and>
            page_body rt w p keyword pg cs io =
              emit_items rt w p keyword pg cs
                (page_items rt p (max_items_per_keyword p - total_collected cs) cards) io1)"
  using assms unfolding page_body_def
  by (auto simp: Let_def split: bool.splits option.splits)

lemma page_body_effect:
  assumes "page_body rt w p keyword pg cs io = (st, cs', io')"
  shows "\<exists>es. trace io' = trace io @ es \<and> list_all body_event es \<and>
     length (filter is_navigated es) \<le> 3 \<and>
     int (length (filter is_pushed es)) \<le> max 0 (max_items_per_keyword p - total_collected cs) \<and>
     (\<forall>k c i r. Pushed k c i r \<in> set es \<longrightarrow> k = keyword \<and> i = page_index cs) \<and>
     total_collected cs \<le> total_collected cs' \<and>
     total_collected cs' \<le> max (total_collected cs) (max_items_per_keyword p) \<and>
     (st = Continue \<longrightarrow> page_index cs' = page_index cs + 1) \<and>
     (st = Break \<longrightarrow> page_index cs' = page_index cs) \<and>
     (st = Continue \<longrightarrow>
        int (length (filter is_pushed es)) \<le> total_collected cs' - total_collected cs)"
proof -
  obtain b io1 where nv: "navigate pg (search_url cs) io = (b, io1)"
    by (cases "navigate pg (search_url cs) io") auto
  from navigate_trace[OF nv] obtain n where
    n: "n \<le> 3" "trace io1 = trace io @ replicate n (Navigated (search_url cs))" by blast
  define es0 :: "'a event list" where "es0 = replicate n (Navigated (search_url cs))"
  have e0: "trace io1 = trace io @ es0" "list_all body_event es0"
    "length (filter is_navigated es0) \<le> 3" "filter is_pushed es0 = []"
    "\<forall>k c i r. Pushed k c i r \<notin> set es0"
    using n by (auto simp: es0_def list_all_iff body_event_def is_navigated_def is_pushed_def)
  from page_body_cases[OF nv, of rt w p keyword] show ?thesis
  proof
    assume "page_body rt w p keyword pg cs io = (Break, cs, io1)"
    with assms have "st = Break" "cs' = cs" "io' = io1" by auto
    with e0 show ?thesis by (intro exI[of _ es0]) simp
  next
    assume "\<exists>cards. 0 < max_items_per_keyword p - total_collected cs \<and>
            page_body rt w p keyword pg cs io =
              emit_items rt w p keyword pg cs
                (page_items rt p (max_items_per_keyword p - total_collected cs) cards) io1"
    then obtain cards where
      c: "0 < max_items_per_keyword p - total_collected cs"
         "emit_items rt w p keyword pg cs
            (page_items rt p (max_items_per_keyword p - total_collected cs) cards) io1
          = (st, cs', io')"
      using assms by auto
    let ?items = "page_items rt p (max_items_per_keyword p - total_collected cs) cards"
    have len: "int (length ?items) \<le> max_items_per_keyword p - total_collected cs"
      using page_items_length[OF c(1)] .
    from emit_items_effect[OF c(2)] obtain es1 where
      e1: "trace io' = trace io1 @ es1" "list_all body_event es1"
          "\<not> list_ex is_navigated es1" "length (filter is_pushed es1) \<le> length ?items"
          "\<forall>k c i r. Pushed k c i r \<in> set es1 \<longrightarrow> k = keyword \<and> i = page_index cs"
          "total_collected cs' = total_collected cs \<or>
           total_collected cs' = total_collected cs + int (length ?items)"
          "st = Continue \<longrightarrow> page_index cs' = page_index cs + 1"
          "st = Break \<longrightarrow> page_index cs' = page_index cs"
          "st = Continue \<longrightarrow>
             int (length (filter is_pushed es1)) \<le> total_collected cs' - total_collected cs"
      by blast
    define es where "es = es0 @ es1"
    have "filter is_navigated es1 = []" using e1(3) by (auto simp: list_ex_iff filter_empty_conv)
    then have 1: "length (filter is_navigated es) \<le> 3" using e0(3) by (simp add: es_def)
    have 2: "int (length (filter is_pushed es)) \<le>
               max 0 (max_items_per_keyword p - total_collected cs)"
      using e0(4) e1(4) len by (simp add: es_def)
    have 3: "\<forall>k c i r. Pushed k c i r \<in> set es \<longrightarrow> k = keyword \<and> i = page_index cs"
      using e0(5) e1(5) by (auto simp: es_def)
    have 4: "trace io' = trace io @ es" using e0(1) e1(1) by (simp add: es_def)
    have 5: "list_all body_event es" using e0(2) e1(2) by (simp add: es_def)
    have 6: "total_collected cs \<le> total_collected cs'"
      "total_collected cs' \<le> max (total_collected cs) (max_items_per_keyword p)"
      using e1(6) len by auto
    have 7: "st = Continue \<longrightarrow>
        int (length (filter is_pushed es)) \<le> total_collected cs' - total_collected cs"
      using e0(4) e1(9) by (simp add: es_def)
    from 1 2 3 4 5 6 7 e1(7,8) show ?thesis by blast
  qed
qed

definition is_opened :: "'f event \<Rightarrow> bool" where
  "is_opened e = (case e of Opened \<Rightarrow> True | _ \<Rightarrow> False)"

fun turn_state :: "'f turn \<Rightarrow> crawl_state" where
  "turn_state (Next cs io) = cs"
| "turn_state (Stop cs io) = cs"
| "turn_state (Raise cs io) = cs"

fun turn_io :: "'f turn \<Rightarrow> 'f io" where
  "turn_io (Next cs io) = io"
| "turn_io (Stop cs io) = io"
| "turn_io (Raise cs io) = io"

fun is_next :: "'f turn \<Rightarrow> bool" where
  "is_next (Next cs io) = True"
| "is_next (Stop cs io) = False"
| "is_next (Raise cs io) = False"

lemma body_event_facts:
  "body_event e \<Longrightarrow> \<not> is_opened e \<and> \<not> is_started e \<and> e \<noteq> Closed"
  by (cases e) (auto simp: body_event_def is_opened_def is_started_def is_navigated_def
      is_detail_def is_pushed_def)

lemma page_iteration_effect:
  "\<exists>es. trace (turn_io (page_iteration rt w p keyword cs io)) = trace io @ es \<and>
     length (filter is_opened es) \<le> 1 \<and>
     length (filter is_navigated es) \<le> 3 \<and>
     int (length (filter is_pushed es)) \<le> max 0 (max_items_per_keyword p - total_collected cs) \<and>
     \<not> list_ex is_started es \<and>
     (\<forall>k c i r. Pushed k c i r \<in> set es \<longrightarrow> k = keyword \<and> i = page_index cs) \<and>
     total_collected cs \<le> total_collected (turn_state (page_iteration rt w p keyword cs io)) \<and>
     total_collected (turn_state (page_iteration rt w p keyword cs io))
       \<le> max (total_collected cs) (max_items_per_keyword p) \<and>
     page_index cs \<le> page_index (turn_state (page_iteration rt w p keyword cs io)) \<and>
     page_index (turn_state (page_iteration rt w p keyword cs io)) \<le> page_index cs + 1 \<and>
     (is_next (page_iteration rt w p keyword cs io) \<longrightarrow>
        page_index (turn_state (page_iteration rt w p keyword cs io)) = page_index cs + 1 \<and>
        int (length (filter is_pushed es))
          \<le> total_collected (turn_state (page_iteration rt w p keyword cs io))
              - total_collected cs)"
proof (cases "new_page_ok w (pages io)")
  case False
  then have "page_iteration rt w p keyword cs io = Raise cs (io\<lparr>pages := Suc (pages io)\<rparr>)"
    by (simp add: page_iteration_def Let_def)
  then show ?thesis by (intro exI[of _ "[]"]) simp
next
  case True
  let ?pg = "search_page_at w (pages io) (search_url cs)"
  let ?io0 = "emit Opened (io\<lparr>pages := Suc (pages io)\<rparr>)"
  obtain st cs' io1 where b: "page_body rt w p keyword ?pg cs ?io0 = (st, cs', io1)"
    by (cases "page_body rt w p keyword ?pg cs ?io0") auto
  from page_body_effect[OF b] obtain es1 where
    e1: "trace io1 = trace ?io0 @ es1" "list_all body_event es1"
        "length (filter is_navigated es1) \<le> 3"
        "int (length (filter is_pushed es1)) \<le> max 0 (max_items_per_keyword p - total_collected cs)"
        "\<forall>k c i r. Pushed k c i r \<in> set es1 \<longrightarrow> k = keyword \<and> i = page_index cs"
        "total_collected cs \<le> total_collected cs'"
        "total_collected cs' \<le> max (total_collected cs) (max_items_per_keyword p)"
        "st = Continue \<longrightarrow> page_index cs' = page_index cs + 1"
        "st = Break \<longrightarrow> page_index cs' = page_index cs"
        "st = Continue \<longrightarrow>
           int (length (filter is_pushed es1)) \<le> total_collected cs' - total_collected cs"
    by blast
  let ?t = "page_iteration rt w p keyword cs io"
  have t: "?t = (if close_raises ?pg then Raise cs' (emit Closed io1)
              else (case st of Continue \<Rightarrow> Next cs' (emit Closed io1)
                    | Break \<Rightarrow> Stop cs' (emit Closed io1)))"
    using True b by (simp add: page_iteration_def Let_def)
  have ts: "turn_state ?t = cs'" "turn_io ?t = emit Closed io1"
    "is_next ?t \<longrightarrow> st = Continue"
    by (auto simp: t split: step.splits)
  have pi: "page_index cs \<le> page_index cs'" "page_index cs' \<le> page_index cs + 1"
    "is_next ?t \<longrightarrow> page_index cs' = page_index cs + 1"
    using e1(8,9) ts(3) by (cases st; simp)+
  define es where "es = Opened # es1 @ [Closed]"
  have f: "filter is_opened es1 = []" "\<not> list_ex is_started es1"
    using e1(2) body_event_facts by (auto simp: list_all_iff list_ex_iff filter_empty_conv)
  have 1: "trace (turn_io ?t) = trace io @ es"
    using ts(2) e1(1) by (simp add: emit_def es_def)
  have 2: "length (filter is_opened es) \<le> 1" using f(1) by (simp add: es_def is_opened_def)
  have 3: "length (filter is_navigated es) \<le> 3"
    using e1(3) by (simp add: es_def is_navigated_def)
  have 4: "int (length (filter is_pushed es)) \<le>
             max 0 (max_items_per_keyword p - total_collected cs)"
    using e1(4) by (simp add: es_def is_pushed_def)
  have 5: "\<not> list_ex is_started es" using f(2) by (simp add: es_def is_started_def)
  have 6: "\<forall>k c i r. Pushed k c i r \<in> set es \<longrightarrow> k = keyword \<and> i = page_index cs"
    using e1(5) by (simp add: es_def)
  have 7: "is_next ?t \<longrightarrow>
      int (length (filter is_pushed es)) \<le> total_collected cs' - total_collected cs"
    using e1(10) ts(3) by (simp add: es_def is_pushed_def)
  from 1 2 3 4 5 6 7 e1(6,7) pi ts(1) show ?thesis by (intro exI[of _ es]) simp
qed

text \<open>What a run of the loop from \<open>cs\<close> to \<open>cs'\<close> adds to the trace: bounds on the
  pages opened, the navigation attempts and the records pushed, and on the two counters.\<close>

definition loop_effect ::
  "'f amazon_search_input \<Rightarrow> pystr \<Rightarrow> crawl_state \<Rightarrow> crawl_state \<Rightarrow> 'f event list \<Rightarrow> bool"
where
  "loop_effect p keyword cs cs' es \<longleftrightarrow>
     int (length (filter is_opened es)) \<le> max 0 (max_pages p + 1 - page_index cs) \<and>
     int (length (filter is_navigated es)) \<le> 3 * max 0 (max_pages p + 1 - page_index cs) \<and>
     int (length (filter is_pushed es)) \<le> max 0 (max_items_per_keyword p - total_collected cs) \<and>
     \<not> list_ex is_started es \<and>
     (\<forall>k c i r. Pushed k c i r \<in> set es \<longrightarrow>
        k = keyword \<and> page_index cs \<le> i \<and> i \<le> max_pages p) \<and>
     total_collected cs \<le> total_collected cs' \<and>
     total_collected cs' \<le> max (total_collected cs) (max_items_per_keyword p) \<and>
     page_index cs \<le> page_index cs' \<and>
     page_index cs' \<le> max (page_index cs) (max_pages p + 1)"

lemma loop_effect_Nil: "loop_effect p keyword cs cs []"
  by (simp add: loop_effect_def)

lemma loop_effect_last:
  assumes lc: "loop_condition p cs"
    and 1: "length (filter is_opened es) \<le> 1"
    and 2: "length (filter is_navigated es) \<le> 3"
    and 3: "int (length (filter is_pushed es))
              \<le> max 0 (max_items_per_keyword p - total_collected cs)"
    and 4: "\<not> list_ex is_started es"
    and 5: "\<forall>k c i r. Pushed k c i r \<in> set es \<longrightarrow> k = keyword \<and> i = page_index cs"
    and 6: "total_collected cs \<le> total_collected cs'"
    and 7: "total_collected cs' \<le> max (total_collected cs) (max_items_per_keyword p)"
    and 8: "page_index cs \<le> page_index cs'" "page_index cs' \<le> page_index cs + 1"
  shows "loop_effect p keyword cs cs' es"
proof -
  have pi: "page_index cs \<le> max_pages p" using lc by (simp add: loop_condition_def)
  have m: "max 0 (max_pages p + 1 - page_index cs) = max_pages p + 1 - page_index cs"
    using pi by simp
  have i1: "int (length (filter is_opened es)) \<le> 1" using 1 by simp
  have i2: "int (length (filter is_navigated es)) \<le> 3" using 2 by simp
  have a: "int (length (filter is_opened es)) \<le> max 0 (max_pages p + 1 - page_index cs)"
    using i1 pi unfolding m by linarith
  have b: "int (length (filter is_navigated es)) \<le> 3 * max 0 (max_pages p + 1 - page_index cs)"
    using i2 pi unfolding m by simp
  have c: "\<forall>k c i r. Pushed k c i r \<in> set es \<longrightarrow>
        k = keyword \<and> page_index cs \<le> i \<and> i \<le> max_pages p"
    using 5 pi by auto
  have d: "page_index cs' \<le> max (page_index cs) (max_pages p + 1)" using 8 pi by linarith
  show ?thesis unfolding loop_effect_def using a b 3 4 c 6 7 8(1) d by blast
qed

lemma loop_effect_step:
  assumes lc: "loop_condition p cs"
    and 1: "length (filter is_opened es1) \<le> 1"
    and 2: "length (filter is_navigated es1) \<le> 3"
    and 3: "int (length (filter is_pushed es1)) \<le> total_collected cs1 - total_collected cs"
    and 4: "\<not> list_ex is_started es1"
    and 5: "\<forall>k c i r. Pushed k c i r \<in> set es1 \<longrightarrow> k = keyword \<and> i = page_index cs"
    and 6: "total_collected cs \<le> total_collected cs1"
    and 7: "total_collected cs1 \<le> max (total_collected cs) (max_items_per_keyword p)"
    and 8: "page_index cs1 = page_index cs + 1"
    and r: "loop_effect p keyword cs1 cs' es2"
  shows "loop_effect p keyword cs cs' (es1 @ es2)"
proof -
  have pi: "page_index cs \<le> max_pages p" and tc: "total_collected cs < max_items_per_keyword p"
    using lc by (simp_all add: loop_condition_def)
  note r' = r[unfolded loop_effect_def]
  have a: "int (length (filter is_opened (es1 @ es2))) \<le> max 0 (max_pages p + 1 - page_index cs)"
    using 1 r' 8 pi by (simp add: max_def split: if_splits)
  have b: "int (length (filter is_navigated (es1 @ es2)))
             \<le> 3 * max 0 (max_pages p + 1 - page_index cs)"
    using 2 r' 8 pi by (simp add: max_def split: if_splits)
  have c: "int (length (filter is_pushed (es1 @ es2)))
             \<le> max 0 (max_items_per_keyword p - total_collected cs)"
    using 3 r' 6 7 tc by (simp add: max_def split: if_splits)
  have d: "\<not> list_ex is_started (es1 @ es2)" using 4 r' by (auto simp: list_ex_iff)
  have e: "\<forall>k c i r. Pushed k c i r \<in> set (es1 @ es2) \<longrightarrow>
        k = keyword \<and> page_index cs \<le> i \<and> i \<le> max_pages p"
  proof (intro allI impI)
    fix k c i r assume "Pushed k c i r \<in> set (es1 @ es2)"
    then consider "Pushed k c i r \<in> set es1" | "Pushed k c i r \<in> set es2" by auto
    then show "k = keyword \<and> page_index cs \<le> i \<and> i \<le> max_pages p"
    proof cases
      case 1
      then show ?thesis using 5 pi by auto
    next
      case 2
      then have "k = keyword \<and> page_index cs1 \<le> i \<and> i \<le> max_pages p" using r' by blast
      then show ?thesis using 8 by simp
    qed
  qed
  have f: "total_collected cs \<le> total_collected cs'"
    "total_collected cs' \<le> max (total_collected cs) (max_items_per_keyword p)"
    "page_index cs \<le> page_index cs'"
    "page_index cs' \<le> max (page_index cs) (max_pages p + 1)"
    using r' 6 7 8 pi tc by (simp_all add: max_def split: if_splits)
  show ?thesis unfolding loop_effect_def using a b c d e f by blast
qed

lemma scrape_loop_effect:
  "scrape_loop rt w p keyword cs io = (st, cs', io') \<Longrightarrow>
     \<exists>es. trace io' = trace io @ es \<and> loop_effect p keyword cs cs' es"
proof (induction rt w p keyword cs io arbitrary: st cs' io' rule: scrape_loop.induct)
  case (1 rt w p keyword cs io)
  show ?case
  proof (cases "loop_condition p cs")
    case False
    with "1.prems" have "cs' = cs" "io' = io" by simp_all
    then show ?thesis using loop_effect_Nil by (intro exI[of _ "[]"]) simp
  next
    case True
    let ?t = "page_iteration rt w p keyword cs io"
    from page_iteration_effect[of rt w p keyword cs io] obtain es1 where
      e: "trace (turn_io ?t) = trace io @ es1"
         "length (filter is_opened es1) \<le> 1"
         "length (filter is_navigated es1) \<le> 3"
         "int (length (filter is_pushed es1))
            \<le> max 0 (max_items_per_keyword p - total_collected cs)"
         "\<not> list_ex is_started es1"
         "\<forall>k c i r. Pushed k c i r \<in> set es1 \<longrightarrow> k = keyword \<and> i = page_index cs"
         "total_collected cs \<le> total_collected (turn_state ?t)"
         "total_collected (turn_state ?t) \<le> max (total_collected cs) (max_items_per_keyword p)"
         "page_index cs \<le> page_index (turn_state ?t)"
         "page_index (turn_state ?t) \<le> page_index cs + 1"
         "is_next ?t \<longrightarrow> page_index (turn_state ?t) = page_index cs + 1 \<and>
            int (length (filter is_pushed es1))
              \<le> total_collected (turn_state ?t) - total_collected cs"
      by blast
    show ?thesis
    proof (cases ?t)
      case (Next cs1 io1)
      with "1.prems" True have s: "scrape_loop rt w p keyword cs1 io1 = (st, cs', io')" by simp
      from "1.IH"[OF True Next s] obtain es2 where
        e2: "trace io' = trace io1 @ es2" "loop_effect p keyword cs1 cs' es2" by blast
      have "loop_effect p keyword cs cs' (es1 @ es2)"
        using loop_effect_step[OF True e(2,3) _ e(5,6) _ _ _ e2(2)] e(7,8,11) Next by simp
      moreover have "trace io' = trace io @ (es1 @ es2)" using e(1) e2(1) Next by simp
      ultimately show ?thesis by blast
    next
      case (Stop cs1 io1)
      with "1.prems" True have "cs' = cs1" "io' = io1" by simp_all
      moreover have "loop_effect p keyword cs cs1 es1"
        using loop_effect_last[OF True e(2,3,4,5,6)] e(7,8,9,10) Stop by simp
      ultimately show ?thesis using e(1) Stop by auto
    next
      case (Raise cs1 io1)
      with "1.prems" True have "cs' = cs1" "io' = io1" by simp_all
      moreover have "loop_effect p keyword cs cs1 es1"
        using loop_effect_last[OF True e(2,3,4,5,6)] e(7,8,9,10) Raise by simp
      ultimately show ?thesis using e(1) Raise by auto
    qed
  qed
qed

subsection \<open>Unrolling the loop\<close>

lemma scrape_loop_Next:
  "loop_condition p cs \<Longrightarrow> page_iteration rt w p keyword cs io = Next cs' io' \<Longrightarrow>
     scrape_loop rt w p keyword cs io = scrape_loop rt w p keyword cs' io'"
  by (subst scrape_loop.simps) simp

lemma scrape_loop_Stop:
  "loop_condition p cs \<Longrightarrow> page_iteration rt w p keyword cs io = Stop cs' io' \<Longrightarrow>
     scrape_loop rt w p keyword cs io = (Returned, cs', io')"
  by (subst scrape_loop.simps) simp


lemma scrape_loop_exit:
  "\<not> loop_condition p cs \<Longrightarrow> scrape_loop rt w p keyword cs io = (Returned, cs, io)"
  by (subst scrape_loop.simps) simp


subsection \<open>An example marketplace\<close>

text \<open>A browser every search page of which shows \<open>n\<close> copies of one card and a next
  link, and every detail page of which loads with one breadcrumb and one bullet; and the
  parameters that normalization gives for the keyword \<open>cable\<close>.\<close>

definition cable :: pystr where
  "cable = ascii ''cable''"

definition first_url :: pystr where
  "first_url = ascii ''https://www.amazon.com/s?k=cable''"

definition next_url :: pystr where
  "next_url = ascii ''https://www.amazon.com/s?k=cable&page=2''"

definition cable_card :: card where
  "cable_card = linked_card (Some (ascii ''Cable'')) (ascii ''/dp/B0EXAMPLE2'')"

definition next_link :: elem where
  "next_link = \<lparr>text_content = None, href = Some (ascii ''/s?k=cable&page=2''), src = None\<rparr>"

definition result_page :: "nat \<Rightarrow> search_page" where
  "result_page n =
     \<lparr>goto_result = (\<lambda>attempt. Nav_ok), content = Some (ascii ''<html></html>''),
      result_cards = Some (replicate n cable_card), next_button = Some [next_link],
      close_raises = False\<rparr>"

definition rich_detail :: detail_page where
  "rich_detail =
     \<lparr>detail_goto_ok = True,
      breadcrumbs = Some [\<lparr>text_content = Some (ascii ''Electronics''), href = None, src = None\<rparr>],
      bullets = Some [\<lparr>text_content = Some (ascii ''Braided''), href = None, src = None\<rparr>]\<rparr>"

definition steady_browser :: "nat \<Rightarrow> browser" where
  "steady_browser n =
     \<lparr>new_page_ok = (\<lambda>k. True), search_page_at = (\<lambda>k url. result_page n),
      detail_page_at = (\<lambda>k url. rich_detail), push_ok = (\<lambda>k. True)\<rparr>"

definition crawl_input :: "int \<Rightarrow> int \<Rightarrow> bool \<Rightarrow> int \<Rightarrow> rat amazon_search_input" where
  "crawl_input items page_limit details detail_limit =
     \<lparr>input_keywords = [ascii ''cable''], max_items_per_keyword = items,
      max_pages = page_limit, country = ascii ''US'', min_rating = None, min_reviews = None,
      exclude_sponsored = False, fetch_details = details, max_detail_items = detail_limit\<rparr>"

definition crawl_raw :: "int \<Rightarrow> int \<Rightarrow> bool \<Rightarrow> int \<Rightarrow> rat raw_input" where
  "crawl_raw items page_limit details detail_limit =
     Map.empty(''keywords'' \<mapsto> PStr (ascii ''cable''),
               ''max_items_per_keyword'' \<mapsto> PInt items,
               ''max_pages'' \<mapsto> PInt page_limit,
               ''fetch_details'' \<mapsto> PBool details,
               ''max_detail_items'' \<mapsto> PInt detail_limit)"

definition io_init :: "'f io" where
  "io_init = \<lparr>pages = 0, pushes = 0, trace = []\<rparr>"

lemma crawl_raw_normalized:
  assumes "1 \<le> items" "1 \<le> page_limit" "page_limit \<le> 20" "1 \<le> detail_limit" "detail_limit \<le> 50"
  shows "normalize_input ascii_rt (crawl_raw items page_limit details detail_limit) =
           Inr (crawl_input items page_limit details detail_limit)"
proof -
  let ?raw = "crawl_raw items page_limit details detail_limit"
  have k: "keywords_of ascii_rt ?raw = Inr [ascii ''cable'']"
    by (simp add: keywords_of_def get_or_def crawl_raw_def iterate_def stripped_strings_def
        bind_exn_def py_strip_def isspace_def ascii_def)
  have i: "int_setting ascii_rt ?raw ''max_items_per_keyword'' 50 = Inr items"
    "int_setting ascii_rt ?raw ''max_pages'' 3 = Inr page_limit"
    "int_setting ascii_rt ?raw ''max_detail_items'' 5 = Inr detail_limit"
    using assms by (simp_all add: int_setting_def get_or_def crawl_raw_def)
  have c: "country_of ascii_rt ?raw = Inr (ascii ''US'')"
    by (simp add: country_of_def get_or_def crawl_raw_def ascii_rt_def ascii_upper_def
        countries_def ascii_def)
  have r: "min_rating_of ascii_rt ?raw = Inr None" "min_reviews_of ascii_rt ?raw = Inr None"
    by (simp_all add: min_rating_of_def min_reviews_of_def crawl_raw_def)
  have f: "flag ascii_rt ?raw ''exclude_sponsored'' = False"
    "flag ascii_rt ?raw ''fetch_details'' = details"
    by (simp_all add: flag_def crawl_raw_def)
  show ?thesis
    unfolding normalize_input_def using assms
    by (simp add: k i c r f bind_exn_def crawl_input_def)
qed

lemma not_blocked: "\<not> looks_blocked ascii_rt (ascii ''<html></html>'')"
  by (simp add: looks_blocked_def captcha_markers_def ascii_rt_def ascii_lower_def ascii_def)

lemma extract_replicate:
  assumes "\<not> expires c" "parse_single_card rt c base mr mv ex = Some item"
  shows "extract_product_cards rt (replicate n c) base mr mv ex = replicate n item"
  using assms by (induction n) auto

lemma push_all_ok:
  assumes "\<And>k. push_ok w k"
  shows "push_all w kw c i items io =
     (True, io\<lparr>pushes := pushes io + length items,
               trace := trace io @ map (Pushed kw c i) items\<rparr>)"
  using assms by (induction items arbitrary: io) (auto simp: Let_def emit_def)

lemma navigate_ok:
  "goto_result pg 1 = Nav_ok \<Longrightarrow> navigate pg url io = (True, emit (Navigated url) io)"
  by (simp add: navigate_def max_nav_retries_def numeral_3_eq_3 Let_def)

lemma us_base: "base_url_of ascii_rt (ascii ''US'') = ascii ''https://www.amazon.com''"
  by (simp add: base_url_of_def country_to_domain_def ascii_rt_def ascii_upper_def ascii_def)

definition cable_item :: "rat product" where
  "cable_item = linked_item (Some (ascii ''Cable'')) (ascii ''/dp/B0EXAMPLE2'')
                  (ascii ''https://www.amazon.com'')"

lemma cable_card_parse:
  "parse_single_card ascii_rt cable_card (ascii ''https://www.amazon.com'') None None False
     = Some cable_item"
  unfolding cable_card_def cable_item_def
  by (rule linked_card_parse) (simp add: ascii_def)

lemma cable_page_items:
  "0 < r \<Longrightarrow>
   page_items ascii_rt (crawl_input mi mp fd md) r (replicate n cable_card) =
     replicate (min n (nat r)) cable_item"
proof -
  assume r: "0 < r"
  have e: "\<not> expires cable_card" by (simp add: cable_card_def linked_card_def)
  have t: "(if int (length (replicate n cable_card)) > r
            then take (nat r) (replicate n cable_card) else replicate n cable_card)
           = replicate (min n (nat r)) cable_card"
    using r by (auto simp: min_def)
  show ?thesis
    unfolding page_items_def t
    by (simp add: crawl_input_def us_base extract_replicate[OF e cable_card_parse])
qed

lemma cable_initial_state:
  "initial_state ascii_rt (crawl_input mi mp fd md) cable =
     Some \<lparr>total_collected = 0, page_index = 1, search_url = first_url\<rparr>"
proof -
  have b: "base_url_of ascii_rt (country (crawl_input mi mp fd md)) = ascii ''https://www.amazon.com''"
    by (simp add: crawl_input_def us_base)
  show ?thesis
    unfolding initial_state_def b
    by (simp add: ascii_rt_def plain_quote_plus_def cable_def first_url_def ascii_def)
qed

lemma steady_paginate:
  "paginate ascii_rt (crawl_input mi mp fd md) (result_page n) cs1 io =
     (if total_collected cs1 \<ge> mi then (Break, cs1, io)
      else (Continue, cs1\<lparr>search_url := next_url, page_index := page_index cs1 + 1\<rparr>, io))"
proof -
  have b: "base_url_of ascii_rt (country (crawl_input mi mp fd md)) = ascii ''https://www.amazon.com''"
    by (simp add: crawl_input_def us_base)
  have m: "max_items_per_keyword (crawl_input mi mp fd md) = mi" by (simp add: crawl_input_def)
  show ?thesis
    unfolding paginate_def b m
    by (simp add: result_page_def next_link_def or_empty_def
        starts_with_slash_def next_url_def ascii_def slash_def Let_def)
qed

lemma steady_body:
  assumes r: "total_collected cs < mi" and n: "0 < n"
  shows "page_body ascii_rt (steady_browser n) (crawl_input mi mp False md) kw (result_page n) cs io =
     paginate ascii_rt (crawl_input mi mp False md) (result_page n)
       (cs\<lparr>total_collected := total_collected cs + int (min n (nat (mi - total_collected cs)))\<rparr>)
       (io\<lparr>pushes := pushes io + min n (nat (mi - total_collected cs)),
           trace := trace io @ Navigated (search_url cs) #
                    map (Pushed kw (ascii ''US'') (page_index cs))
                      (replicate (min n (nat (mi - total_collected cs))) cable_item)\<rparr>)"
proof -
  let ?p = "crawl_input mi mp False md"
  let ?k = "min n (nat (mi - total_collected cs))"
  have nav: "navigate (result_page n) (search_url cs) io = (True, emit (Navigated (search_url cs)) io)"
    by (rule navigate_ok) (simp add: result_page_def)
  have c: "content (result_page n) = Some (ascii ''<html></html>'')"
    "result_cards (result_page n) = Some (replicate n cable_card)"
    by (simp_all add: result_page_def)
  have ne: "replicate n cable_card \<noteq> []" using n by simp
  have rem: "max_items_per_keyword ?p - total_collected cs = mi - total_collected cs"
    "\<not> mi - total_collected cs \<le> 0" "0 < mi - total_collected cs"
    using r by (simp_all add: crawl_input_def)
  have items: "page_items ascii_rt ?p (mi - total_collected cs) (replicate n cable_card)
                 = replicate ?k cable_item"
    by (rule cable_page_items[OF rem(3)])
  have kpos: "replicate ?k cable_item \<noteq> []" using n rem(3) by simp
  have po: "\<And>k. push_ok (steady_browser n) k" by (simp add: steady_browser_def)
  have e: "emit_items ascii_rt (steady_browser n) ?p kw (result_page n) cs
             (replicate ?k cable_item) (emit (Navigated (search_url cs)) io) =
           paginate ascii_rt ?p (result_page n)
             (cs\<lparr>total_collected := total_collected cs + int ?k\<rparr>)
             (io\<lparr>pushes := pushes io + ?k,
                 trace := trace io @ Navigated (search_url cs) #
                    map (Pushed kw (ascii ''US'') (page_index cs)) (replicate ?k cable_item)\<rparr>)"
    unfolding emit_items_def
    by (simp add: push_all_ok[OF po] crawl_input_def emit_def)
  show ?thesis
    unfolding page_body_def nav c
    by (simp only: prod.case bool.case option.case not_blocked if_False ne rem Let_def items
        kpos e)
qed

lemma steady_turn:
  assumes r: "total_collected cs < mi" and n: "0 < n"
  shows "page_iteration ascii_rt (steady_browser n) (crawl_input mi mp False md) kw cs io =
     (let k = min n (nat (mi - total_collected cs));
          io' = io\<lparr>pages := Suc (pages io), pushes := pushes io + k,
                   trace := trace io @ Opened # Navigated (search_url cs) #
                     map (Pushed kw (ascii ''US'') (page_index cs)) (replicate k cable_item)
                     @ [Closed]\<rparr>
      in if total_collected cs + int k \<ge> mi
         then Stop (cs\<lparr>total_collected := total_collected cs + int k\<rparr>) io'
         else Next (cs\<lparr>total_collected := total_collected cs + int k,
                       search_url := next_url, page_index := page_index cs + 1\<rparr>) io')"
proof -
  have w: "new_page_ok (steady_browser n) (pages io)"
    "search_page_at (steady_browser n) (pages io) (search_url cs) = result_page n"
    "\<not> close_raises (result_page n)"
    by (simp_all add: steady_browser_def result_page_def)
  show ?thesis
    unfolding page_iteration_def
    by (simp add: w Let_def steady_body[OF r n] steady_paginate emit_def)
qed


subsection \<open>Bot-protection pages\<close>

definition blocked_page :: search_page where
  "blocked_page =
     \<lparr>goto_result = (\<lambda>attempt. Nav_ok),
      content = Some (ascii ''<form action=/errors/validateCaptcha><img src=/captcha/Xy.jpg>''),
      result_cards = Some (replicate 7 cable_card), next_button = Some [next_link],
      close_raises = False\<rparr>"

definition blocked_browser :: browser where
  "blocked_browser =
     \<lparr>new_page_ok = (\<lambda>k. True), search_page_at = (\<lambda>k url. blocked_page),
      detail_page_at = (\<lambda>k url. rich_detail), push_ok = (\<lambda>k. True)\<rparr>"

lemma blocked_page_blocked:
  "looks_blocked ascii_rt (ascii ''<form action=/errors/validateCaptcha><img src=/captcha/Xy.jpg>'')"
  by (simp add: looks_blocked_def captcha_markers_def ascii_rt_def ascii_lower_def ascii_def)


text \<open>
  C7. When the loop of a keyword opens a page, the navigation succeeds and the content of
  the page, in lower case, contains one of the bot-protection markers, the loop ends with
  this page: the crawl state is unchanged, and the only events added are the opening of the
  page, at most three navigation attempts to the search URL and the closing of the page. No
  card is read, no record is pushed, no detail page is navigated to and no further page is
  opened for the keyword.
\<close>

theorem captcha_page_ends_crawl:
  assumes lc: "loop_condition p cs"
    and op: "new_page_ok w (pages io)"
    and nav: "navigate (search_page_at w (pages io) (search_url cs)) (search_url cs)
                (emit Opened (io\<lparr>pages := Suc (pages io)\<rparr>)) = (True, io1)"
    and html: "content (search_page_at w (pages io) (search_url cs)) = Some html"
    and blocked: "looks_blocked rt html"
  shows "\<exists>st io' n. scrape_loop rt w p keyword cs io = (st, cs, io') \<and> n \<le> 3 \<and>
           trace io' = trace io @ Opened # replicate n (Navigated (search_url cs)) @ [Closed] \<and>
           pushes io' = pushes io \<and> pages io' = Suc (pages io)"
proof -
  let ?pg = "search_page_at w (pages io) (search_url cs)"
  let ?io0 = "emit Opened (io\<lparr>pages := Suc (pages io)\<rparr>)"
  from navigate_trace[OF nav] obtain n where
    n: "n \<le> 3" "trace io1 = trace ?io0 @ replicate n (Navigated (search_url cs))"
       "pages io1 = pages ?io0" "pushes io1 = pushes ?io0" by blast
  have b: "page_body rt w p keyword ?pg cs ?io0 = (Break, cs, io1)"
    using nav html blocked by (simp add: page_body_def)
  have t: "page_iteration rt w p keyword cs io =
             (if close_raises ?pg then Raise cs (emit Closed io1) else Stop cs (emit Closed io1))"
    using op b by (simp add: page_iteration_def Let_def)
  have s: "scrape_loop rt w p keyword cs io =
             (if close_raises ?pg then Raised else Returned, cs, emit Closed io1)"
    using lc t by (subst scrape_loop.simps) simp
  have "trace (emit Closed io1) =
          trace io @ Opened # replicate n (Navigated (search_url cs)) @ [Closed]"
    using n(2) by (simp add: emit_def)
  moreover have "pushes (emit Closed io1) = pushes io" "pages (emit Closed io1) = Suc (pages io)"
    using n(3,4) by (simp_all add: emit_def)
  ultimately show ?thesis using s n(1) by blast
qed

theorem captcha_page_ends_crawl_witness:
  "\<exists>st io' n. scrape_keyword ascii_rt blocked_browser (crawl_input 10 3 False 5) cable io_init =
       (st, Some \<lparr>total_collected = 0, page_index = 1, search_url = first_url\<rparr>, io') \<and>
     n \<le> 3 \<and>
     trace io' = Started cable # Opened # replicate n (Navigated first_url) @ [Closed] \<and>
     pushes io' = 0"
proof -
  let ?p = "crawl_input 10 3 False 5"
  let ?cs0 = "\<lparr>total_collected = 0, page_index = 1, search_url = first_url\<rparr>"
  let ?io0 = "emit (Started cable) io_init :: rat io"
  let ?io1 = "emit Opened (?io0\<lparr>pages := Suc (pages ?io0)\<rparr>)"
  have l: "loop_condition ?p ?cs0" by (simp add: loop_condition_def crawl_input_def)
  have o: "new_page_ok blocked_browser (pages ?io0)" by (simp add: blocked_browser_def)
  have pg: "search_page_at blocked_browser (pages ?io0) (search_url ?cs0) = blocked_page"
    by (simp add: blocked_browser_def)
  have nav: "navigate (search_page_at blocked_browser (pages ?io0) (search_url ?cs0))
               (search_url ?cs0) ?io1 = (True, emit (Navigated (search_url ?cs0)) ?io1)"
    unfolding pg by (rule navigate_ok) (simp add: blocked_page_def)
  have c: "content (search_page_at blocked_browser (pages ?io0) (search_url ?cs0)) =
             Some (ascii ''<form action=/errors/validateCaptcha><img src=/captcha/Xy.jpg>'')"
    unfolding pg by (simp add: blocked_page_def)
  from captcha_page_ends_crawl[OF l o nav c blocked_page_blocked, of cable]
  obtain st io' n where
    r: "scrape_loop ascii_rt blocked_browser ?p cable ?cs0 ?io0 = (st, ?cs0, io')" "n \<le> 3"
       "trace io' = trace ?io0 @ Opened # replicate n (Navigated (search_url ?cs0)) @ [Closed]"
       "pushes io' = pushes ?io0"
    by blast
  have t: "trace io' = Started cable # Opened # replicate n (Navigated first_url) @ [Closed]"
    "pushes io' = 0"
    using r(3,4) by (simp_all add: emit_def io_init_def)
  have "scrape_keyword ascii_rt blocked_browser ?p cable io_init = (st, Some ?cs0, io')"
    unfolding scrape_keyword_def cable_initial_state option.case r(1) by simp
  with r(2) t show ?thesis by blast
qed


subsection \<open>The bounds of a keyword crawl\<close>

text \<open>The crawl states a keyword crawl goes through: the state at each evaluation of the
  loop condition (flag \<open>True\<close>), and the state in which a turn that does not continue the
  loop leaves the crawl (flag \<open>False\<close>).\<close>

inductive crawl_visits ::
  "'f runtime \<Rightarrow> browser \<Rightarrow> 'f amazon_search_input \<Rightarrow> pystr \<Rightarrow> 'f io
     \<Rightarrow> bool \<Rightarrow> crawl_state \<Rightarrow> 'f io \<Rightarrow> bool"
  for rt w p keyword io0
where
  start: "initial_state rt p keyword = Some cs0 \<Longrightarrow>
          crawl_visits rt w p keyword io0 True cs0 (emit (Started keyword) io0)"
| turn: "crawl_visits rt w p keyword io0 True cs io \<Longrightarrow> loop_condition p cs \<Longrightarrow>
         t = page_iteration rt w p keyword cs io \<Longrightarrow>
         crawl_visits rt w p keyword io0 (is_next t) (turn_state t) (turn_io t)"

lemma crawl_visits_invariant:
  assumes "crawl_visits rt w p keyword io0 r cs io"
    and "0 \<le> max_items_per_keyword p" "0 \<le> max_pages p"
  shows "0 \<le> total_collected cs \<and> total_collected cs \<le> max_items_per_keyword p \<and>
         1 \<le> page_index cs \<and> page_index cs \<le> max_pages p + 1"
  using assms
proof (induction rule: crawl_visits.induct)
  case (start cs0)
  then show ?case by (auto simp: initial_state_def split: option.splits)
next
  case (turn cs io t)
  from page_iteration_effect[of rt w p keyword cs io] obtain es where
    e: "total_collected cs \<le> total_collected (turn_state t)"
       "total_collected (turn_state t) \<le> max (total_collected cs) (max_items_per_keyword p)"
       "page_index cs \<le> page_index (turn_state t)"
       "page_index (turn_state t) \<le> page_index cs + 1"
    unfolding turn(3)[symmetric] by blast
  have lc: "page_index cs \<le> max_pages p" using turn(2) by (simp add: loop_condition_def)
  from turn(4)[OF turn(5,6)] e lc show ?case by simp
qed

lemma scrape_loop_visits:
  "crawl_visits rt w p keyword io0 True cs io \<Longrightarrow>
   scrape_loop rt w p keyword cs io = (st, cs', io') \<Longrightarrow>
     \<exists>r. crawl_visits rt w p keyword io0 r cs' io'"
proof (induction rt w p keyword cs io arbitrary: st cs' io' rule: scrape_loop.induct)
  case (1 rt w p keyword cs io)
  show ?case
  proof (cases "loop_condition p cs")
    case False
    with "1.prems" show ?thesis by auto
  next
    case True
    let ?t = "page_iteration rt w p keyword cs io"
    have v: "crawl_visits rt w p keyword io0 (is_next ?t) (turn_state ?t) (turn_io ?t)"
      using crawl_visits.turn[OF "1.prems"(1) True refl] .
    show ?thesis
    proof (cases ?t)
      case (Next cs1 io1)
      with "1.prems" True have s: "scrape_loop rt w p keyword cs1 io1 = (st, cs', io')" by simp
      from v Next have "crawl_visits rt w p keyword io0 True cs1 io1" by simp
      from "1.IH"[OF True Next this s] show ?thesis .
    next
      case (Stop cs1 io1)
      with "1.prems" True have "cs' = cs1" "io' = io1" by simp_all
      with v Stop show ?thesis by auto
    next
      case (Raise cs1 io1)
      with "1.prems" True have "cs' = cs1" "io' = io1" by simp_all
      with v Raise show ?thesis by auto
    qed
  qed
qed

lemma scrape_keyword_None:
  "rt_quote_plus rt keyword = None \<Longrightarrow> scrape_keyword rt w p keyword io = (Raised, None, io)"
  by (simp add: scrape_keyword_def initial_state_def)

lemma scrape_keyword_Some:
  assumes "rt_quote_plus rt keyword \<noteq> None"
  shows "\<exists>cs0 st cs' io'. initial_state rt p keyword = Some cs0 \<and>
           scrape_loop rt w p keyword cs0 (emit (Started keyword) io) = (st, cs', io') \<and>
           scrape_keyword rt w p keyword io = (st, Some cs', io')"
proof -
  from assms obtain cs0 where i: "initial_state rt p keyword = Some cs0"
    by (auto simp: initial_state_def)
  obtain st cs' io' where
    l: "scrape_loop rt w p keyword cs0 (emit (Started keyword) io) = (st, cs', io')"
    by (cases "scrape_loop rt w p keyword cs0 (emit (Started keyword) io)") auto
  have "scrape_keyword rt w p keyword io = (st, Some cs', io')"
    unfolding scrape_keyword_def i option.case l by simp
  with i l show ?thesis by blast
qed

lemma scrape_keyword_SomeD:
  assumes "scrape_keyword rt w p keyword io = (st, Some cs', io')"
  shows "\<exists>cs0. initial_state rt p keyword = Some cs0 \<and>
           scrape_loop rt w p keyword cs0 (emit (Started keyword) io) = (st, cs', io')"
  using assms unfolding scrape_keyword_def
  by (auto simp del: scrape_loop.simps split: option.splits prod.splits)

lemma scrape_keyword_visits:
  assumes "scrape_keyword rt w p keyword io = (st, Some cs', io')"
  shows "\<exists>r. crawl_visits rt w p keyword io r cs' io'"
proof -
  from scrape_keyword_SomeD[OF assms] obtain cs0 where
    i: "initial_state rt p keyword = Some cs0"
    and l: "scrape_loop rt w p keyword cs0 (emit (Started keyword) io) = (st, cs', io')"
    by blast
  from scrape_loop_visits[OF crawl_visits.start[OF i] l] show ?thesis .
qed

lemma scrape_keyword_effect:
  assumes "scrape_keyword rt w p keyword io = (st, Some cs', io')"
    and "1 \<le> max_items_per_keyword p" "1 \<le> max_pages p"
  shows "\<exists>es. trace io' = trace io @ Started keyword # es \<and>
           int (length (filter is_opened es)) \<le> max_pages p \<and>
           int (length (filter is_navigated es)) \<le> 3 * max_pages p \<and>
           int (length (filter is_pushed es)) \<le> max_items_per_keyword p \<and>
           \<not> list_ex is_started es \<and>
           (\<forall>k c i r. Pushed k c i r \<in> set es \<longrightarrow> k = keyword \<and> 1 \<le> i \<and> i \<le> max_pages p)"
proof -
  from scrape_keyword_SomeD[OF assms(1)] obtain cs0 where
    i: "initial_state rt p keyword = Some cs0"
    and l: "scrape_loop rt w p keyword cs0 (emit (Started keyword) io) = (st, cs', io')"
    by blast
  from i have c: "total_collected cs0 = 0" "page_index cs0 = 1"
    by (auto simp: initial_state_def split: option.splits)
  from scrape_loop_effect[OF l] obtain es where
    e: "trace io' = trace (emit (Started keyword) io) @ es"
       "loop_effect p keyword cs0 cs' es" by blast
  have m: "max 0 (max_pages p + 1 - 1) = max_pages p"
    "max 0 (max_items_per_keyword p - 0) = max_items_per_keyword p"
    using assms(2,3) by simp_all
  note l = e(2)[unfolded loop_effect_def c m]
  have "trace io' = trace io @ Started keyword # es" using e(1) by (simp add: emit_def)
  with l show ?thesis by blast
qed


text \<open>Two pages of seven cards with ten records wanted; pages without end with two pages
  allowed; and one page allowed, the page having a next link.\<close>

definition seven_seven_run :: "status \<times> crawl_state option \<times> rat io" where
  "seven_seven_run = scrape_keyword ascii_rt (steady_browser 7) (crawl_input 10 3 False 5) cable io_init"

definition two_page_run :: "status \<times> crawl_state option \<times> rat io" where
  "two_page_run = scrape_keyword ascii_rt (steady_browser 7) (crawl_input 50 2 False 5) cable io_init"

definition one_page_run :: "status \<times> crawl_state option \<times> rat io" where
  "one_page_run = scrape_keyword ascii_rt (steady_browser 1) (crawl_input 50 1 False 5) cable io_init"

lemma seven_seven:
  "seven_seven_run =
     (Returned, Some \<lparr>total_collected = 10, page_index = 2, search_url = next_url\<rparr>,
      \<lparr>pages = 2, pushes = 10,
       trace = Started cable # Opened # Navigated first_url #
               replicate 7 (Pushed cable (ascii ''US'') 1 cable_item) @
               Closed # Opened # Navigated next_url #
               replicate 3 (Pushed cable (ascii ''US'') 2 cable_item) @ [Closed]\<rparr>)"
proof -
  let ?p = "crawl_input 10 3 False 5"
  let ?w = "steady_browser 7"
  let ?cs0 = "\<lparr>total_collected = 0, page_index = 1, search_url = first_url\<rparr>"
  let ?io0 = "emit (Started cable) io_init :: rat io"
  let ?cs1 = "\<lparr>total_collected = 7, page_index = 2, search_url = next_url\<rparr>"
  let ?io1 = "\<lparr>pages = 1, pushes = 7,
       trace = Started cable # Opened # Navigated first_url #
               replicate 7 (Pushed cable (ascii ''US'') 1 cable_item) @ [Closed]\<rparr> :: rat io"
  have l0: "loop_condition ?p ?cs0" and l1: "loop_condition ?p ?cs1"
    by (simp_all add: loop_condition_def crawl_input_def)
  have t0: "page_iteration ascii_rt ?w ?p cable ?cs0 ?io0 = Next ?cs1 ?io1"
    by (subst steady_turn) (simp_all add: Let_def emit_def io_init_def)
  have t1: "page_iteration ascii_rt ?w ?p cable ?cs1 ?io1 =
      Stop \<lparr>total_collected = 10, page_index = 2, search_url = next_url\<rparr>
      \<lparr>pages = 2, pushes = 10,
       trace = Started cable # Opened # Navigated first_url #
               replicate 7 (Pushed cable (ascii ''US'') 1 cable_item) @
               Closed # Opened # Navigated next_url #
               replicate 3 (Pushed cable (ascii ''US'') 2 cable_item) @ [Closed]\<rparr>"
    by (subst steady_turn) (simp_all add: Let_def)
  show ?thesis
    unfolding seven_seven_run_def scrape_keyword_def cable_initial_state
    by (simp only: option.case scrape_loop_Next[OF l0 t0] scrape_loop_Stop[OF l1 t1] prod.case)
qed

lemma count_replicate_pushed:
  "length (filter is_pushed (replicate n (Pushed k c i r))) = n"
  by (induction n) (simp_all add: is_pushed_def)

lemma seven_seven_pushed:
  "length (filter is_pushed (trace (snd (snd seven_seven_run)))) = 10"
  unfolding seven_seven
  by (simp add: count_replicate_pushed) (simp add: is_pushed_def)

lemma two_pages:
  "two_page_run =
     (Returned, Some \<lparr>total_collected = 14, page_index = 3, search_url = next_url\<rparr>,
      \<lparr>pages = 2, pushes = 14,
       trace = Started cable # Opened # Navigated first_url #
               replicate 7 (Pushed cable (ascii ''US'') 1 cable_item) @
               Closed # Opened # Navigated next_url #
               replicate 7 (Pushed cable (ascii ''US'') 2 cable_item) @ [Closed]\<rparr>)"
proof -
  let ?p = "crawl_input 50 2 False 5"
  let ?w = "steady_browser 7"
  let ?cs0 = "\<lparr>total_collected = 0, page_index = 1, search_url = first_url\<rparr>"
  let ?io0 = "emit (Started cable) io_init :: rat io"
  let ?cs1 = "\<lparr>total_collected = 7, page_index = 2, search_url = next_url\<rparr>"
  let ?io1 = "\<lparr>pages = 1, pushes = 7,
       trace = Started cable # Opened # Navigated first_url #
               replicate 7 (Pushed cable (ascii ''US'') 1 cable_item) @ [Closed]\<rparr> :: rat io"
  let ?cs2 = "\<lparr>total_collected = 14, page_index = 3, search_url = next_url\<rparr>"
  let ?io2 = "\<lparr>pages = 2, pushes = 14,
       trace = Started cable # Opened # Navigated first_url #
               replicate 7 (Pushed cable (ascii ''US'') 1 cable_item) @
               Closed # Opened # Navigated next_url #
               replicate 7 (Pushed cable (ascii ''US'') 2 cable_item) @ [Closed]\<rparr> :: rat io"
  have l0: "loop_condition ?p ?cs0" and l1: "loop_condition ?p ?cs1"
    and l2: "\<not> loop_condition ?p ?cs2"
    by (simp_all add: loop_condition_def crawl_input_def)
  have t0: "page_iteration ascii_rt ?w ?p cable ?cs0 ?io0 = Next ?cs1 ?io1"
    by (subst steady_turn) (simp_all add: Let_def emit_def io_init_def)
  have t1: "page_iteration ascii_rt ?w ?p cable ?cs1 ?io1 = Next ?cs2 ?io2"
    by (subst steady_turn) (simp_all add: Let_def)
  show ?thesis
    unfolding two_page_run_def scrape_keyword_def cable_initial_state
    by (simp only: option.case scrape_loop_Next[OF l0 t0] scrape_loop_Next[OF l1 t1] scrape_loop_exit[OF l2] prod.case)
qed

lemma replicate_pushed_not_opened:
  "filter is_opened (replicate n (Pushed k c i r)) = []"
  by (induction n) (simp_all add: is_opened_def)

lemma two_pages_opened:
  "length (filter is_opened (trace (snd (snd two_page_run)))) = 2"
  unfolding two_pages
  by (simp add: replicate_pushed_not_opened) (simp add: is_opened_def)

lemma one_page:
  "one_page_run =
     (Returned, Some \<lparr>total_collected = 1, page_index = 2, search_url = next_url\<rparr>,
      \<lparr>pages = 1, pushes = 1,
       trace = [Started cable, Opened, Navigated first_url,
                Pushed cable (ascii ''US'') 1 cable_item, Closed]\<rparr>)"
proof -
  let ?p = "crawl_input 50 1 False 5"
  let ?w = "steady_browser 1"
  let ?cs0 = "\<lparr>total_collected = 0, page_index = 1, search_url = first_url\<rparr>"
  let ?io0 = "emit (Started cable) io_init :: rat io"
  let ?cs1 = "\<lparr>total_collected = 1, page_index = 2, search_url = next_url\<rparr>"
  let ?io1 = "\<lparr>pages = 1, pushes = 1,
       trace = [Started cable, Opened, Navigated first_url,
                Pushed cable (ascii ''US'') 1 cable_item, Closed]\<rparr> :: rat io"
  have l0: "loop_condition ?p ?cs0" and l1: "\<not> loop_condition ?p ?cs1"
    by (simp_all add: loop_condition_def crawl_input_def)
  have t0: "page_iteration ascii_rt ?w ?p cable ?cs0 ?io0 = Next ?cs1 ?io1"
    by (subst steady_turn) (simp_all add: Let_def emit_def io_init_def)
  show ?thesis
    unfolding one_page_run_def scrape_keyword_def cable_initial_state
    by (simp only: option.case scrape_loop_Next[OF l0 t0] scrape_loop_exit[OF l1] prod.case)
qed


text \<open>
  C2 (as amended). For every keyword crawl with normalized parameters, in every state the
  crawl goes through \<open>total_collected\<close> is between 0 and \<open>max_items_per_keyword\<close>
  and \<open>page_index\<close> is between 1 and \<open>max_pages + 1\<close>. The crawl ends in such a state;
  it opens at most \<open>max_pages\<close> search pages, makes at most three navigation attempts for
  each, pushes at most \<open>max_items_per_keyword\<close> records, and every record pushed carries
  the keyword and a page index between 1 and \<open>max_pages\<close>. A crawl whose search URL cannot
  be built raises before it has a state, with nothing opened and nothing pushed. With 10
  records wanted and pages of 7 qualifying cards, exactly 10 records are pushed; with 2 pages
  allowed and pages without end, exactly 2 search pages are opened.
\<close>

theorem crawl_state_invariants:
  assumes "normalize_input rt raw = Inr p"
  shows "(\<forall>r cs io'. crawl_visits rt w p keyword io r cs io' \<longrightarrow>
            0 \<le> total_collected cs \<and> total_collected cs \<le> max_items_per_keyword p \<and>
            1 \<le> page_index cs \<and> page_index cs \<le> max_pages p + 1) \<and>
         (rt_quote_plus rt keyword = None \<longrightarrow>
            scrape_keyword rt w p keyword io = (Raised, None, io)) \<and>
         (rt_quote_plus rt keyword \<noteq> None \<longrightarrow>
            (\<exists>st cs' io' es. scrape_keyword rt w p keyword io = (st, Some cs', io') \<and>
               (\<exists>r. crawl_visits rt w p keyword io r cs' io') \<and>
               trace io' = trace io @ Started keyword # es \<and>
               int (length (filter is_opened es)) \<le> max_pages p \<and>
               int (length (filter is_navigated es)) \<le> 3 * max_pages p \<and>
               int (length (filter is_pushed es)) \<le> max_items_per_keyword p \<and>
               (\<forall>k c i r. Pushed k c i r \<in> set es \<longrightarrow>
                  k = keyword \<and> 1 \<le> i \<and> i \<le> max_pages p))) \<and>
         length (filter is_pushed (trace (snd (snd seven_seven_run)))) = 10 \<and>
         length (filter is_opened (trace (snd (snd two_page_run)))) = 2"
proof -
  from normalize_input_ranges[OF assms]
  have b: "1 \<le> max_items_per_keyword p" "1 \<le> max_pages p" by simp_all
  have 1: "\<forall>r cs io'. crawl_visits rt w p keyword io r cs io' \<longrightarrow>
            0 \<le> total_collected cs \<and> total_collected cs \<le> max_items_per_keyword p \<and>
            1 \<le> page_index cs \<and> page_index cs \<le> max_pages p + 1"
    using crawl_visits_invariant[of rt w p keyword io] b by force
  have 2: "\<exists>st cs' io' es. scrape_keyword rt w p keyword io = (st, Some cs', io') \<and>
            (\<exists>r. crawl_visits rt w p keyword io r cs' io') \<and>
            trace io' = trace io @ Started keyword # es \<and>
            int (length (filter is_opened es)) \<le> max_pages p \<and>
            int (length (filter is_navigated es)) \<le> 3 * max_pages p \<and>
            int (length (filter is_pushed es)) \<le> max_items_per_keyword p \<and>
            (\<forall>k c i r. Pushed k c i r \<in> set es \<longrightarrow>
               k = keyword \<and> 1 \<le> i \<and> i \<le> max_pages p)"
    if q: "rt_quote_plus rt keyword \<noteq> None"
  proof -
    from scrape_keyword_Some[OF q, of p w io] obtain st cs' io' where
      s: "scrape_keyword rt w p keyword io = (st, Some cs', io')" by blast
    from scrape_keyword_effect[OF s b] obtain es where
      e: "trace io' = trace io @ Started keyword # es"
         "int (length (filter is_opened es)) \<le> max_pages p"
         "int (length (filter is_navigated es)) \<le> 3 * max_pages p"
         "int (length (filter is_pushed es)) \<le> max_items_per_keyword p"
         "\<forall>k c i r. Pushed k c i r \<in> set es \<longrightarrow> k = keyword \<and> 1 \<le> i \<and> i \<le> max_pages p"
      by blast
    from s scrape_keyword_visits[OF s] e show ?thesis by blast
  qed
  have 3: "scrape_keyword rt w p keyword io = (Raised, None, io)"
    if "rt_quote_plus rt keyword = None"
    using that by (rule scrape_keyword_None)
  from 1 2 3 seven_seven_pushed two_pages_opened show ?thesis by blast
qed

theorem crawl_state_invariants_witness:
  "normalize_input ascii_rt (crawl_raw 10 3 False 5) = Inr (crawl_input 10 3 False 5) \<and>
   rt_quote_plus ascii_rt cable \<noteq> None \<and>
   (\<exists>cs. fst (snd seven_seven_run) = Some cs \<and>
      (\<exists>r. crawl_visits ascii_rt (steady_browser 7) (crawl_input 10 3 False 5) cable io_init r
             cs (snd (snd seven_seven_run))) \<and>
      total_collected cs \<le> 10 \<and> page_index cs \<le> 3 + 1)"
proof -
  have n: "normalize_input ascii_rt (crawl_raw 10 3 False 5) = Inr (crawl_input 10 3 False 5)"
    by (rule crawl_raw_normalized) simp_all
  have q: "rt_quote_plus ascii_rt cable \<noteq> None"
    by (simp add: ascii_rt_def plain_quote_plus_def cable_def ascii_def)
  from crawl_state_invariants[OF n, of "steady_browser 7" cable io_init] q
  obtain st cs' io' where
    s: "scrape_keyword ascii_rt (steady_browser 7) (crawl_input 10 3 False 5) cable io_init
          = (st, Some cs', io')"
    and v: "\<exists>r. crawl_visits ascii_rt (steady_browser 7) (crawl_input 10 3 False 5) cable
                  io_init r cs' io'"
    and i: "\<forall>r cs io'. crawl_visits ascii_rt (steady_browser 7) (crawl_input 10 3 False 5) cable
              io_init r cs io' \<longrightarrow>
            0 \<le> total_collected cs \<and>
            total_collected cs \<le> max_items_per_keyword (crawl_input 10 3 False 5) \<and>
            1 \<le> page_index cs \<and> page_index cs \<le> max_pages (crawl_input 10 3 False 5) + 1"
    by blast
  from v i have "total_collected cs' \<le> 10 \<and> page_index cs' \<le> 3 + 1"
    by (auto simp: crawl_input_def)
  with s v n q show ?thesis by (auto simp: seven_seven_run_def)
qed


text \<open>
  C2 as stated fails: with one page allowed and a first page that has one qualifying card
  and a next link, the crawl ends in a state where \<open>page_index\<close> is 2.
\<close>

theorem page_index_counterexample:
  "normalize_input ascii_rt (crawl_raw 50 1 False 5) = Inr (crawl_input 50 1 False 5) \<and>
   max_pages (crawl_input 50 1 False 5) = 1 \<and>
   map_option page_index (fst (snd one_page_run)) = Some 2 \<and>
   crawl_visits ascii_rt (steady_browser 1) (crawl_input 50 1 False 5) cable io_init True
     \<lparr>total_collected = 1, page_index = 2, search_url = next_url\<rparr> (snd (snd one_page_run))"
proof -
  let ?p = "crawl_input 50 1 False 5"
  have n: "normalize_input ascii_rt (crawl_raw 50 1 False 5) = Inr ?p"
    by (rule crawl_raw_normalized) simp_all
  let ?cs0 = "\<lparr>total_collected = 0, page_index = 1, search_url = first_url\<rparr>"
  let ?cs1 = "\<lparr>total_collected = 1, page_index = 2, search_url = next_url\<rparr>"
  let ?io0 = "emit (Started cable) io_init :: rat io"
  let ?t = "page_iteration ascii_rt (steady_browser 1) ?p cable ?cs0 ?io0"
  have l0: "loop_condition ?p ?cs0" by (simp add: loop_condition_def crawl_input_def)
  have t0: "?t = Next ?cs1 (snd (snd one_page_run))"
    unfolding one_page by (subst steady_turn) (simp_all add: Let_def emit_def io_init_def)
  have "crawl_visits ascii_rt (steady_browser 1) ?p cable io_init True ?cs0 ?io0"
    by (rule crawl_visits.start[OF cable_initial_state])
  from crawl_visits.turn[OF this l0 refl]
  have "crawl_visits ascii_rt (steady_browser 1) ?p cable io_init True ?cs1
          (snd (snd one_page_run))"
    unfolding t0 by simp
  then show ?thesis using n by (simp add: one_page crawl_input_def)
qed

subsection \<open>Detail enrichment\<close>



































subsection \<open>Failures and the keywords that follow\<close>

































end
